theory Spec2Isabelle
  imports Complex_Main
begin

section \<open>Values, exceptions and the ambient process\<close>

text \<open>
  The orchestration core is Python. Values that travel in event payloads and stage
  results are dynamically typed, so they are embedded as one datatype. Python's
  \<^verbatim>\<open>float\<close> is idealised as the rational number it stands for: the rounding of each
  operation is left out, and every comparison the code makes (\<^verbatim>\<open>max\<close>, \<^verbatim>\<open>> 0\<close>) is
  monotone in the rounded values as well. What lies beyond the range of a float is
  modelled where the interpreter raises for it (\<open>true_divide\<close> below). \<open>PStrOf v\<close> stands for the text \<^verbatim>\<open>str(v)\<close>, whose characters
  are not modelled, and \<open>PIso t\<close> for the text \<^verbatim>\<open>isoformat()\<close> gives for the clock
  reading \<open>t\<close>.
\<close>

datatype pyval =
    PNone
  | PBool bool
  | PInt int
  | PFloat rat
  | PStr string
  | PStrOf pyval
  | PIso nat
  | PList "pyval list"
  | PDict "(string \<times> pyval) list"

type_synonym pydict = "(string \<times> pyval) list"

text \<open>The exceptions the modelled code can raise; all are subclasses of \<^verbatim>\<open>Exception\<close>.\<close>

datatype exn =
    TypeError
  | AttributeError
  | OverflowError string
  | KeyError string
  | ValueError string
  | Exception string

text \<open>
  \<^verbatim>\<open>str(e)\<close>: a \<^verbatim>\<open>KeyError\<close> prints the repr of its key, a \<^verbatim>\<open>ValueError\<close>, an
  \<^verbatim>\<open>OverflowError\<close> or an \<^verbatim>\<open>Exception\<close> its message. The interpreter's own messages for \<^verbatim>\<open>TypeError\<close> and \<^verbatim>\<open>AttributeError\<close>
  name the operands; a fixed text stands for them.
\<close>

fun str_exn :: "exn \<Rightarrow> string" where
  "str_exn TypeError = ''unsupported operand type(s)''"
| "str_exn AttributeError = ''object has no attribute''"
| "str_exn (OverflowError m) = m"
| "str_exn (KeyError k) = [CHR 0x27] @ k @ [CHR 0x27]"
| "str_exn (ValueError m) = m"
| "str_exn (Exception m) = m"

text \<open>The number a Python value denotes in arithmetic, if it is one (\<^verbatim>\<open>bool\<close> is an \<^verbatim>\<open>int\<close>).\<close>

fun py_num :: "pyval \<Rightarrow> rat option" where
  "py_num (PInt i) = Some (of_int i)"
| "py_num (PFloat r) = Some r"
| "py_num (PBool b) = Some (if b then 1 else 0)"
| "py_num v = None"

text \<open>\<^verbatim>\<open>d[k]\<close> and \<^verbatim>\<open>len(v)\<close> on a dynamically typed value.\<close>

fun getitem :: "pyval \<Rightarrow> string \<Rightarrow> exn + pyval" where
  "getitem (PDict d) k = (case map_of d k of None \<Rightarrow> Inl (KeyError k) | Some v \<Rightarrow> Inr v)"
| "getitem v k = Inl TypeError"

fun py_len :: "pyval \<Rightarrow> exn + pyval" where
  "py_len (PDict d) = Inr (PInt (int (length d)))"
| "py_len (PList xs) = Inr (PInt (int (length xs)))"
| "py_len (PStr s) = Inr (PInt (int (length s)))"
| "py_len v = Inl TypeError"

section \<open>base.py: events and run state\<close>

datatype EventType =
    STARTED
  | PROGRESS
  | STEP_STARTED
  | STEP_COMPLETED
  | WARNING
  | ERROR
  | COMPLETED
  | FAILED

text \<open>\<^verbatim>\<open>RunStatus.FAILED\<close> is written \<open>RUN_FAILED\<close>: the name \<open>FAILED\<close> is the event type's.\<close>

datatype RunStatus =
    QUEUED
  | RUNNING
  | SUCCEEDED
  | RUN_FAILED
  | CANCELED

text \<open>
  \<^verbatim>\<open>datetime\<close> values are readings of a clock, modelled as natural numbers. The field
  \<^verbatim>\<open>AgentEvent.error\<close> is \<open>event_error\<close> and \<^verbatim>\<open>RunState.id\<close> is \<open>run_state_id\<close>.
\<close>

record AgentEvent =
  run_id :: string
  agent_id :: string
  event_type :: EventType
  timestamp :: nat
  message :: string
  data :: pydict
  event_error :: "string option"

record RunState =
  run_state_id :: string
  status :: RunStatus
  query :: string
  max_docs :: int
  processed_docs :: pyval
  total_docs :: pyval
  current_step :: pyval
  progress :: rat
  error :: "string option"
  finished :: bool
  created_at :: nat
  updated_at :: nat
  result :: "pyval option"
  events :: "AgentEvent list"

type_synonym registry = "string \<rightharpoonup> RunState"

subsection \<open>The ambient process: wall clock and logger\<close>

text \<open>
  Callbacks mutate application state of some type \<open>'s\<close>; the wall clock and the
  logger are ambient. \<^verbatim>\<open>datetime.now()\<close> reads the clock, which then moves on.
\<close>

datatype log_record =
    LogInfo AgentEvent
  | LogCallbackError exn
  | LogRunFailed string exn

record ambient =
  clock :: nat
  logged :: "log_record list"

definition tick :: "ambient \<Rightarrow> ambient" where
  "tick y = y\<lparr>clock := Suc (clock y)\<rparr>"

definition logger :: "log_record \<Rightarrow> ambient \<Rightarrow> ambient" where
  "logger r y = y\<lparr>logged := logged y @ [r]\<rparr>"

subsection \<open>EventEmitter\<close>

text \<open>
  A subscriber is a Python callable taking the event. It may mutate the application
  state and may raise; what it had already mutated when it raised stays mutated. The
  second argument is the reading \<^verbatim>\<open>datetime.now()\<close> gives inside the callback.
\<close>

type_synonym 's callback = "AgentEvent \<Rightarrow> nat \<Rightarrow> 's \<Rightarrow> exn option \<times> 's"

text \<open>
  \<^verbatim>\<open>
  def emit(self, event):
      logger.info(...)
      for callback in self.subscribers:
          try:
              callback(event)
          except Exception as e:
              logger.error(f"Event callback error: {e}")
  \<close>
  The result has the shape of every fallible operation here: the exception that
  leaves the call, if any, and the state after it.
\<close>

fun deliver :: "'s callback list \<Rightarrow> AgentEvent \<Rightarrow> 's \<times> ambient \<Rightarrow> exn option \<times> ('s \<times> ambient)" where
  "deliver [] event st = (None, st)"
| "deliver (callback # rest) event (s, y) =
     (case callback event (clock y) s of
        (None, s') \<Rightarrow> deliver rest event (s', tick y)
      | (Some e, s') \<Rightarrow> deliver rest event (s', logger (LogCallbackError e) (tick y)))"

definition emit :: "'s callback list \<Rightarrow> AgentEvent \<Rightarrow> 's \<times> ambient \<Rightarrow> exn option \<times> ('s \<times> ambient)" where
  "emit subscribers event st = deliver subscribers event (fst st, logger (LogInfo event) (snd st))"

section \<open>bess_orchestrator.py: the bus subscriber\<close>

text \<open>
  The range of a \<^verbatim>\<open>float\<close>. The largest finite double is \<open>2^1024 - 2^971\<close>; a number
  rounds (to nearest, ties to even) to a finite double exactly when its magnitude is
  below \<open>2^1024 - 2^970\<close>. \<open>float_overflow q\<close> holds of the numbers that do not.
\<close>

definition float_overflow :: "rat \<Rightarrow> bool" where
  "float_overflow q = (2 ^ 1024 - 2 ^ 970 \<le> \<bar>q\<bar>)"

fun is_int :: "pyval \<Rightarrow> bool" where
  "is_int (PInt i) = True"
| "is_int (PBool b) = True"
| "is_int v = False"

text \<open>
  \<^verbatim>\<open>a / b\<close> for a divisor that is not zero. Between two integers the quotient is
  computed exactly and then rounded; the interpreter raises \<^verbatim>\<open>OverflowError\<close> when it is
  beyond the range of a float. When one operand is a float the other, if an integer, is
  converted first, and the conversion raises \<^verbatim>\<open>OverflowError\<close> for an integer beyond that
  range. An operand that is not a number raises \<^verbatim>\<open>TypeError\<close>. A quotient of floats
  beyond the range is an infinity in the interpreter and raises nothing; as a float is
  idealised by the number it stands for, the model keeps the exact quotient there, and
  statements about the value computed are made for quotients within the range.
\<close>

definition true_divide :: "pyval \<Rightarrow> pyval \<Rightarrow> exn + rat" where
  "true_divide a b =
     (case (py_num a, py_num b) of
        (Some x, Some y) \<Rightarrow>
          if is_int a \<and> is_int b then
            (if float_overflow (x / y)
             then Inl (OverflowError ''integer division result too large for a float'')
             else Inr (x / y))
          else if (is_int a \<and> float_overflow x) \<or> (is_int b \<and> float_overflow y) then
            Inl (OverflowError ''int too large to convert to float'')
          else Inr (x / y)
      | _ \<Rightarrow> Inl TypeError)"

text \<open>
  \<^verbatim>\<open>(data["current"] / data["total"]) * k if data["total"] > 0 else 0\<close>:
  the comparison is evaluated first and raises \<^verbatim>\<open>TypeError\<close> on a value that is not a
  number; the division is evaluated only when the total is positive, and raises as
  \<open>true_divide\<close> says.
\<close>

definition weighted :: "pyval \<Rightarrow> pyval \<Rightarrow> rat \<Rightarrow> exn + rat" where
  "weighted cur tot k =
     (case py_num tot of
        None \<Rightarrow> Inl TypeError
      | Some t \<Rightarrow>
          if t > 0 then
            (case true_divide cur tot of Inl e \<Rightarrow> Inl e | Inr q \<Rightarrow> Inr (q * k))
          else Inr 0)"

text \<open>The branch for \<^verbatim>\<open>event.agent_id == "document_processor"\<close>.\<close>

definition total_docs_key :: "pydict \<Rightarrow> RunState \<Rightarrow> RunState" where
  "total_docs_key d run_state =
     (case map_of d ''total_docs'' of
        None \<Rightarrow> run_state
      | Some n \<Rightarrow> run_state\<lparr>total_docs := n\<rparr>)"

definition document_processor_progress :: "pydict \<Rightarrow> RunState \<Rightarrow> exn option \<times> RunState" where
  "document_processor_progress d run_state =
     (case (map_of d ''current'', map_of d ''total'') of
        (Some cur, Some tot) \<Rightarrow>
          (let rs1 = run_state\<lparr>processed_docs := cur, total_docs := tot\<rparr> in
           case weighted cur tot 40 of
             Inl e \<Rightarrow> (Some e, rs1)
           | Inr doc_progress \<Rightarrow>
               (None, total_docs_key d (rs1\<lparr>progress := max (progress rs1) doc_progress\<rparr>)))
      | _ \<Rightarrow> (None, total_docs_key d run_state))"

text \<open>The branches for \<^verbatim>\<open>"content_generator"\<close> (base 40, weight 50) and
  \<^verbatim>\<open>"document_assembler"\<close> (base 90, weight 10).\<close>

definition content_generator_progress :: "pydict \<Rightarrow> RunState \<Rightarrow> exn option \<times> RunState" where
  "content_generator_progress d run_state =
     (case (map_of d ''current'', map_of d ''total'') of
        (Some cur, Some tot) \<Rightarrow>
          (case weighted cur tot 50 of
             Inl e \<Rightarrow> (Some e, run_state)
           | Inr section_progress \<Rightarrow>
               (None, run_state\<lparr>progress := max (progress run_state) (40 + section_progress)\<rparr>))
      | _ \<Rightarrow> (None, run_state))"

definition document_assembler_progress :: "pydict \<Rightarrow> RunState \<Rightarrow> exn option \<times> RunState" where
  "document_assembler_progress d run_state =
     (case (map_of d ''current'', map_of d ''total'') of
        (Some cur, Some tot) \<Rightarrow>
          (case weighted cur tot 10 of
             Inl e \<Rightarrow> (Some e, run_state)
           | Inr assembly_progress \<Rightarrow>
               (None, run_state\<lparr>progress := max (progress run_state) (90 + assembly_progress)\<rparr>))
      | _ \<Rightarrow> (None, run_state))"

text \<open>The \<^verbatim>\<open>if/elif\<close> chain on the event type (lines 43 to 79).\<close>

definition update_run_state :: "AgentEvent \<Rightarrow> RunState \<Rightarrow> exn option \<times> RunState" where
  "update_run_state event run_state =
     (if event_type event = STEP_STARTED then
        (None, run_state\<lparr>current_step :=
           (case map_of (data event) ''step'' of None \<Rightarrow> PStr (message event) | Some v \<Rightarrow> v)\<rparr>)
      else if event_type event = PROGRESS then
        (if agent_id event = ''document_processor'' then
           document_processor_progress (data event) run_state
         else if agent_id event = ''content_generator'' then
           content_generator_progress (data event) run_state
         else if agent_id event = ''document_assembler'' then
           document_assembler_progress (data event) run_state
         else (None, run_state))
      else if event_type event = WARNING then (None, run_state)
      else if event_type event = ERROR then (None, run_state\<lparr>error := event_error event\<rparr>)
      else (None, run_state))"

text \<open>
  \<^verbatim>\<open>_handle_agent_event\<close>: events of unknown runs are dropped; otherwise the event is
  appended to the log, the run state is updated, and \<^verbatim>\<open>updated_at\<close> is refreshed. An
  exception in the update leaves the method before the refresh.
\<close>

definition handle_agent_event :: "registry callback" where
  "handle_agent_event event now runs =
     (case runs (run_id event) of
        None \<Rightarrow> (None, runs)
      | Some run_state \<Rightarrow>
          (case update_run_state event (run_state\<lparr>events := events run_state @ [event]\<rparr>) of
             (Some e, rs) \<Rightarrow> (Some e, runs(run_id event \<mapsto> rs))
           | (None, rs) \<Rightarrow> (None, runs(run_id event \<mapsto> rs\<lparr>updated_at := now\<rparr>))))"

section \<open>base.py: the registry's read operations\<close>

text \<open>Python's truth test on a value, and the text of a value that is not a string.\<close>

fun truthy :: "pyval \<Rightarrow> bool" where
  "truthy PNone = False"
| "truthy (PBool b) = b"
| "truthy (PInt i) = (i \<noteq> 0)"
| "truthy (PFloat r) = (r \<noteq> 0)"
| "truthy (PStr s) = (s \<noteq> [])"
| "truthy (PStrOf v) = True"
| "truthy (PIso t) = True"
| "truthy (PList xs) = (xs \<noteq> [])"
| "truthy (PDict d) = (d \<noteq> [])"

fun py_str :: "pyval \<Rightarrow> pyval" where
  "py_str (PStr s) = PStr s"
| "py_str v = PStrOf v"

text \<open>\<^verbatim>\<open>d.get(k)\<close> on a dictionary.\<close>

definition dict_get :: "pydict \<Rightarrow> string \<Rightarrow> pyval" where
  "dict_get d k = (case map_of d k of None \<Rightarrow> PNone | Some v \<Rightarrow> v)"

text \<open>The values of the two string enumerations.\<close>

fun EventType_value :: "EventType \<Rightarrow> string" where
  "EventType_value STARTED = ''started''"
| "EventType_value PROGRESS = ''progress''"
| "EventType_value STEP_STARTED = ''step_started''"
| "EventType_value STEP_COMPLETED = ''step_completed''"
| "EventType_value WARNING = ''warning''"
| "EventType_value ERROR = ''error''"
| "EventType_value COMPLETED = ''completed''"
| "EventType_value FAILED = ''failed''"

fun RunStatus_value :: "RunStatus \<Rightarrow> string" where
  "RunStatus_value QUEUED = ''queued''"
| "RunStatus_value RUNNING = ''running''"
| "RunStatus_value SUCCEEDED = ''succeeded''"
| "RunStatus_value RUN_FAILED = ''failed''"
| "RunStatus_value CANCELED = ''canceled''"

definition optional_str :: "string option \<Rightarrow> pyval" where
  "optional_str s = (case s of None \<Rightarrow> PNone | Some m \<Rightarrow> PStr m)"

definition optional_val :: "pyval option \<Rightarrow> pyval" where
  "optional_val v = (case v of None \<Rightarrow> PNone | Some x \<Rightarrow> x)"

text \<open>\<^verbatim>\<open>AgentEvent.to_dict\<close> and \<^verbatim>\<open>RunState.to_dict\<close>; the latter leaves the event log out.\<close>

definition event_to_dict :: "AgentEvent \<Rightarrow> pydict" where
  "event_to_dict e =
     [(''run_id'', PStr (run_id e)),
      (''agent_id'', PStr (agent_id e)),
      (''event_type'', PStr (EventType_value (event_type e))),
      (''timestamp'', PIso (timestamp e)),
      (''message'', PStr (message e)),
      (''data'', PDict (data e)),
      (''error'', optional_str (event_error e))]"

definition to_dict :: "RunState \<Rightarrow> pydict" where
  "to_dict r =
     [(''id'', PStr (run_state_id r)),
      (''status'', PStr (RunStatus_value (status r))),
      (''query'', PStr (query r)),
      (''max_docs'', PInt (max_docs r)),
      (''processed_docs'', processed_docs r),
      (''total_docs'', total_docs r),
      (''current_step'', current_step r),
      (''progress'', PFloat (progress r)),
      (''error'', optional_str (error r)),
      (''finished'', PBool (finished r)),
      (''created_at'', PIso (created_at r)),
      (''updated_at'', PIso (updated_at r)),
      (''result'', optional_val (result r))]"

text \<open>\<^verbatim>\<open>AgentOrchestrator.get_run_status\<close> and \<^verbatim>\<open>get_run_events\<close>.\<close>

definition get_run_status :: "registry \<Rightarrow> string \<Rightarrow> pydict option" where
  "get_run_status runs rid =
     (case runs rid of None \<Rightarrow> None | Some run_state \<Rightarrow> Some (to_dict run_state))"

definition get_run_events :: "registry \<Rightarrow> string \<Rightarrow> pydict list" where
  "get_run_events runs rid =
     (case runs rid of None \<Rightarrow> [] | Some run_state \<Rightarrow> map event_to_dict (events run_state))"

section \<open>api/agent\_routes.py: the routes over the global orchestrator\<close>

text \<open>
  A route either returns its response body or leaves with an exception:
  \<^verbatim>\<open>HTTPException(status_code, detail)\<close>, or one the route does not raise itself. Each
  route is given the registry and hands it back, so that what it changes is explicit.
  \<^verbatim>\<open>if not status\<close> holds for \<^verbatim>\<open>None\<close> and for an empty dictionary.
\<close>

datatype failure =
    HTTPException nat string
  | Unhandled exn

definition not_status :: "pydict option \<Rightarrow> bool" where
  "not_status s = (case s of None \<Rightarrow> True | Some d \<Rightarrow> d = [])"

definition get_run_status_route :: "string \<Rightarrow> registry \<Rightarrow> (failure + pydict) \<times> registry" where
  "get_run_status_route rid runs =
     (let s = get_run_status runs rid in
      if not_status s then (Inl (HTTPException 404 ''Run not found''), runs)
      else (case s of None \<Rightarrow> (Inl (Unhandled TypeError), runs) | Some d \<Rightarrow> (Inr d, runs)))"

definition get_run_events_route :: "string \<Rightarrow> registry \<Rightarrow> (failure + pydict) \<times> registry" where
  "get_run_events_route rid runs =
     (let evs = get_run_events runs rid in
      (Inr [(''run_id'', PStr rid), (''events'', PList (map PDict evs))], runs))"

text \<open>
  \<^verbatim>\<open>cancel_run\<close>. The assignment \<^verbatim>\<open>run_state.status = "canceled"\<close> stores the string
  that \<^verbatim>\<open>RunStatus.CANCELED\<close> equals.
\<close>

definition cancel_run :: "string \<Rightarrow> registry \<Rightarrow> (failure + pydict) \<times> registry" where
  "cancel_run rid runs =
     (let s = get_run_status runs rid in
      if not_status s then (Inl (HTTPException 404 ''Run not found''), runs)
      else if truthy (dict_get (case s of None \<Rightarrow> [] | Some d \<Rightarrow> d) ''finished'') then
        (Inl (HTTPException 400 ''Run already finished''), runs)
      else
        (case runs rid of
           None \<Rightarrow> (Inl (Unhandled (KeyError rid)), runs)
         | Some run_state \<Rightarrow>
             (Inr [(''message'', PStr ''Run canceled''), (''run_id'', PStr rid)],
              runs(rid \<mapsto> run_state\<lparr>status := CANCELED, finished := True,
                                      error := Some ''Canceled by user''\<rparr>))))"

section \<open>base.py: BaseAgent\<close>

text \<open>The decimal text of an integer, as \<^verbatim>\<open>str\<close> and f-strings print it.\<close>

fun str_nat :: "nat \<Rightarrow> string" where
  "str_nat n = (if n < 10 then [char_of (48 + n)] else str_nat (n div 10) @ [char_of (48 + n mod 10)])"

declare str_nat.simps [simp del]

definition str_int :: "int \<Rightarrow> string" where
  "str_int i = (if i < 0 then CHR ''-'' # str_nat (nat (- i)) else str_nat (nat i))"

text \<open>
  The fields of an agent; \<^verbatim>\<open>agent_id\<close> is \<open>self_agent_id\<close> here, and the shared emitter is
  passed to each operation as its list of subscribers.
\<close>

record BaseAgent =
  self_agent_id :: string
  is_running :: bool
  current_run_id :: "string option"

text \<open>
  \<^verbatim>\<open>emit_event\<close> returns at once when \<^verbatim>\<open>not self.current_run_id\<close>, that is for \<^verbatim>\<open>None\<close>
  and for the empty string; otherwise it builds the event, stamped with the clock, and
  hands it to the emitter. \<^verbatim>\<open>data or {}\<close> replaces a missing payload by the empty one.
\<close>

definition emit_event ::
  "'s callback list \<Rightarrow> BaseAgent \<Rightarrow> EventType \<Rightarrow> string \<Rightarrow> pydict option \<Rightarrow> string option \<Rightarrow>
   's \<times> ambient \<Rightarrow> exn option \<times> ('s \<times> ambient)" where
  "emit_event subscribers self ty msg dat err st =
     (case current_run_id self of
        None \<Rightarrow> (None, st)
      | Some rid \<Rightarrow>
          if rid = [] then (None, st)
          else
            (let event = \<lparr>run_id = rid, agent_id = self_agent_id self, event_type = ty,
                          timestamp = clock (snd st), message = msg,
                          data = (case dat of None \<Rightarrow> [] | Some d \<Rightarrow> d),
                          event_error = err\<rparr>
             in emit subscribers event (fst st, tick (snd st))))"

text \<open>
  What a stage's \<^verbatim>\<open>_execute\<close> does to the rest of the system is a sequence of calls of
  \<^verbatim>\<open>self.emit_event(event_type, message, data, error)\<close>, followed by a returned result
  or a raised exception. Nothing an emission does flows back into the stage, so a
  stage's work is that sequence and that outcome. The helpers \<^verbatim>\<open>emit_step\<close>,
  \<^verbatim>\<open>emit_progress\<close> and \<^verbatim>\<open>emit_warning\<close> each make one such call. \<^verbatim>\<open>emit_progress\<close>
  is given for the arguments the stages pass, \<open>0 \<le> current \<le> total\<close>, where the
  percentage \<^verbatim>\<open>(current / total) * 100\<close> is within the range of a float.
\<close>

datatype call = Call EventType string "pydict option" "string option"

fun call_type :: "call \<Rightarrow> EventType" where
  "call_type (Call ty msg dat err) = ty"

definition emit_step :: "string \<Rightarrow> string \<Rightarrow> call" where
  "emit_step step_name msg =
     Call STEP_STARTED (if msg \<noteq> [] then msg else ''Starting '' @ step_name)
       (Some [(''step'', PStr step_name)]) None"

definition emit_progress :: "int \<Rightarrow> int \<Rightarrow> string \<Rightarrow> call" where
  "emit_progress current tot msg =
     (let pct = (if tot > 0 then PFloat ((of_int current / of_int tot) * 100) else PInt 0)
      in Call PROGRESS
           (if msg \<noteq> [] then msg else ''Progress: '' @ str_int current @ ''/'' @ str_int tot)
           (Some [(''current'', PInt current), (''total'', PInt tot), (''progress'', pct)])
           None)"

definition emit_warning :: "string \<Rightarrow> pydict option \<Rightarrow> call" where
  "emit_warning msg dat = Call WARNING msg dat None"

record work =
  calls :: "call list"
  outcome :: "exn + pyval"

fun perform :: "'s callback list \<Rightarrow> BaseAgent \<Rightarrow> call list \<Rightarrow> 's \<times> ambient \<Rightarrow> exn option \<times> ('s \<times> ambient)" where
  "perform subscribers self [] st = (None, st)"
| "perform subscribers self (Call ty msg dat err # rest) st =
     (case emit_event subscribers self ty msg dat err st of
        (None, st') \<Rightarrow> perform subscribers self rest st'
      | (Some e, st') \<Rightarrow> (Some e, st'))"

text \<open>
  \<^verbatim>\<open>execute\<close>: the \<^verbatim>\<open>try/except/finally\<close> around the stage's work. Whatever is raised
  inside the \<^verbatim>\<open>try\<close> block reaches the \<^verbatim>\<open>except\<close> branch, which emits \<^verbatim>\<open>FAILED\<close> and
  re-raises; the \<^verbatim>\<open>finally\<close> block resets the agent (\<open>idle\<close>).
\<close>

definition idle :: "BaseAgent \<Rightarrow> BaseAgent" where
  "idle self = self\<lparr>is_running := False, current_run_id := None\<rparr>"

definition execute ::
  "'s callback list \<Rightarrow> BaseAgent \<Rightarrow> string \<Rightarrow> work \<Rightarrow> 's \<times> ambient \<Rightarrow>
   (exn + pyval) \<times> BaseAgent \<times> ('s \<times> ambient)" where
  "execute subscribers self0 rid w st =
     (let self = self0\<lparr>current_run_id := Some rid, is_running := True\<rparr>;
          failed = (\<lambda>e st'.
             (case emit_event subscribers self FAILED (''Failed '' @ self_agent_id self) None
                     (Some (str_exn e)) st' of
                (None, st'') \<Rightarrow> (Inl e, idle self, st'')
              | (Some e', st'') \<Rightarrow> (Inl e', idle self, st'')))
      in
      case emit_event subscribers self STARTED (''Starting '' @ self_agent_id self) None None st of
        (Some e, st1) \<Rightarrow> failed e st1
      | (None, st1) \<Rightarrow>
          (case perform subscribers self (calls w) st1 of
             (Some e, st2) \<Rightarrow> failed e st2
           | (None, st2) \<Rightarrow>
               (case outcome w of
                  Inl e \<Rightarrow> failed e st2
                | Inr res \<Rightarrow>
                    (case emit_event subscribers self COMPLETED (''Completed '' @ self_agent_id self)
                            (Some [(''result'', py_str res)]) None st2 of
                       (None, st3) \<Rightarrow> (Inr res, idle self, st3)
                     | (Some e, st3) \<Rightarrow> failed e st3))))"

text \<open>
  An orchestrator holds one object per stage, which all its runs share, and a stage's
  \<^verbatim>\<open>_execute\<close> can be suspended between its calls (it awaits \<^verbatim>\<open>asyncio.sleep\<close>), so
  invocations of \<^verbatim>\<open>execute\<close> on one agent object can overlap. \<^verbatim>\<open>execute\<close> itself runs
  undisturbed from its entry to the start of \<^verbatim>\<open>_execute\<close> (\<open>Enter\<close>: the two assignments
  and the \<^verbatim>\<open>STARTED\<close> event) and from the end of \<^verbatim>\<open>_execute\<close> to its own end (\<open>Leave\<close>:
  the terminal event and the \<^verbatim>\<open>finally\<close> block); each call of \<^verbatim>\<open>emit_event\<close> by the
  stage is a step of its own (\<open>Emit\<close>). Every step reads \<^verbatim>\<open>self.current_run_id\<close> as
  the agent object then holds it. Since \<^verbatim>\<open>emit_event\<close> raises nothing, a step is given by
  the agent and the state it leaves. \<open>execute\<close> above is the invocation whose steps
  follow one another with no step of another invocation between them.
\<close>

datatype step =
    Enter string
  | Emit call
  | Leave "exn + pyval"

fun agent_step ::
  "'s callback list \<Rightarrow> BaseAgent \<times> ('s \<times> ambient) \<Rightarrow> step \<Rightarrow> BaseAgent \<times> ('s \<times> ambient)" where
  "agent_step subscribers (self0, st) (Enter rid) =
     (let self = self0\<lparr>current_run_id := Some rid, is_running := True\<rparr>
      in (self, snd (emit_event subscribers self STARTED (''Starting '' @ self_agent_id self)
                       None None st)))"
| "agent_step subscribers (self, st) (Emit (Call ty msg dat err)) =
     (self, snd (emit_event subscribers self ty msg dat err st))"
| "agent_step subscribers (self, st) (Leave (Inr res)) =
     (idle self,
      snd (emit_event subscribers self COMPLETED (''Completed '' @ self_agent_id self)
             (Some [(''result'', py_str res)]) None st))"
| "agent_step subscribers (self, st) (Leave (Inl e)) =
     (idle self,
      snd (emit_event subscribers self FAILED (''Failed '' @ self_agent_id self) None
             (Some (str_exn e)) st))"

definition invocation :: "string \<Rightarrow> work \<Rightarrow> step list" where
  "invocation rid w = Enter rid # map Emit (calls w) @ [Leave (outcome w)]"

definition run_steps ::
  "'s callback list \<Rightarrow> BaseAgent \<times> ('s \<times> ambient) \<Rightarrow> step list \<Rightarrow> BaseAgent \<times> ('s \<times> ambient)" where
  "run_steps subscribers x steps = foldl (agent_step subscribers) x steps"

section \<open>document\_processor.py\<close>

text \<open>
  The content of a stage (reading files, calling a language model, rendering) is
  outside the orchestration core. What a stage finds in its environment is a
  parameter of its model: here the files that \<^verbatim>\<open>_find_documents\<close> returns, each with
  what \<^verbatim>\<open>_extract_content\<close> does on it (a content dictionary, \<^verbatim>\<open>None\<close>, or an exception
  with the given text).
\<close>

datatype extraction = Extracted pyval | NoContent | ExtractFailed string

record doc_file =
  doc_name :: string
  doc_path :: string
  extraction :: extraction

text \<open>The loop over \<^verbatim>\<open>enumerate(doc_files)\<close>: the calls it makes, and the two lists it fills.\<close>

fun process_docs :: "nat \<Rightarrow> int \<Rightarrow> doc_file list \<Rightarrow> call list \<times> pyval list \<times> pyval list" where
  "process_docs i n_docs [] = ([], [], [])"
| "process_docs i n_docs (f # fs) =
     (let (cs, processed_files, extracted_content) = process_docs (Suc i) n_docs fs;
          p = emit_progress (int i) n_docs (''Processing '' @ doc_name f)
      in case extraction f of
           Extracted content \<Rightarrow>
             if truthy content
             then (p # cs, PStr (doc_path f) # processed_files, content # extracted_content)
             else (p # cs, processed_files, extracted_content)
         | NoContent \<Rightarrow> (p # cs, processed_files, extracted_content)
         | ExtractFailed m \<Rightarrow>
             (p # emit_warning (''Failed to process '' @ doc_name f @ '': '' @ m) None # cs,
              processed_files, extracted_content))"

definition DocumentProcessor_execute :: "doc_file list \<Rightarrow> string \<Rightarrow> int \<Rightarrow> work" where
  "DocumentProcessor_execute found q max_docs_arg =
     (if found = [] then
        \<lparr>calls = [emit_step ''scanning'' ''Scanning document directory'',
                  emit_warning ''No documents found to process'' None],
         outcome = Inr (PDict [(''processed_files'', PList []), (''extracted_content'', PList [])])\<rparr>
      else
        (let doc_files = (if max_docs_arg > 0 then take (nat max_docs_arg) found else found);
             n_docs = int (length doc_files);
             (cs, processed_files, extracted_content) = process_docs 0 n_docs doc_files
         in \<lparr>calls =
               [emit_step ''scanning'' ''Scanning document directory'',
                Call PROGRESS (''Found '' @ str_int n_docs @ '' documents to process'')
                  (Some [(''total_docs'', PInt n_docs)]) None]
               @ cs
               @ [emit_progress n_docs n_docs ''Document processing complete''],
             outcome = Inr (PDict
               [(''processed_files'', PList processed_files),
                (''extracted_content'', PList extracted_content),
                (''total_processed'', PInt (int (length processed_files))),
                (''total_found'', PInt n_docs)])\<rparr>))"

section \<open>content\_generator.py\<close>

text \<open>
  The environment of the content generator: whether it runs on mock responses, and for
  each section what generating it does: a text, possibly after a failed model call
  that is reported as a warning, or an exception with the given text.
\<close>

datatype generation = Generated "string option" string | GenerationFailed string

record generator =
  use_mock :: bool
  generate :: "string \<Rightarrow> generation"

definition sections :: "(string \<times> string) list" where
  "sections =
     [(''executive_summary'', ''Executive Summary''),
      (''introduction'', ''Introduction and Background''),
      (''project_description'', ''Project Description''),
      (''environmental_impact'', ''Environmental Impact Assessment''),
      (''mitigation_measures'', ''Mitigation Measures''),
      (''monitoring_plan'', ''Monitoring and Follow-up Plan''),
      (''conclusions'', ''Conclusions'')]"

fun generate_sections ::
  "generator \<Rightarrow> nat \<Rightarrow> int \<Rightarrow> (string \<times> string) list \<Rightarrow> call list \<times> pydict" where
  "generate_sections g i n [] = ([], [])"
| "generate_sections g i n ((section_id, section_title) # rest) =
     (let (cs, generated_sections) = generate_sections g (Suc i) n rest;
          p = emit_progress (int i) n (''Generating '' @ section_title)
      in case generate g section_id of
           Generated w section_content \<Rightarrow>
             (p # (case w of None \<Rightarrow> []
                   | Some m \<Rightarrow> [emit_warning (''LLM API call failed: '' @ m) None]) @ cs,
              (section_id, PDict
                 [(''title'', PStr section_title),
                  (''content'', PStr section_content),
                  (''confidence'', PFloat (if \<not> use_mock g then 85 / 100 else 3 / 10))])
              # generated_sections)
         | GenerationFailed m \<Rightarrow>
             (p # emit_warning (''Failed to generate '' @ section_title @ '': '' @ m) None # cs,
              (section_id, PDict
                 [(''title'', PStr section_title),
                  (''content'', PStr (''[Error generating section: '' @ m @ '']'')),
                  (''confidence'', PFloat 0)])
              # generated_sections))"

text \<open>
  \<^verbatim>\<open>_summarize_content\<close> reads three keys of each of the first five items; its text is
  used by the generation only, so what matters here is whether it raises.
\<close>

definition sliceable :: "pyval \<Rightarrow> bool" where
  "sliceable v = (case v of PStr s \<Rightarrow> True | PStrOf x \<Rightarrow> True | PIso t \<Rightarrow> True
                  | PList xs \<Rightarrow> True | _ \<Rightarrow> False)"

definition summarize_item :: "pyval \<Rightarrow> exn option" where
  "summarize_item item =
     (case getitem item ''file_name'' of
        Inl e \<Rightarrow> Some e
      | Inr n \<Rightarrow>
          (case getitem item ''file_type'' of
             Inl e \<Rightarrow> Some e
           | Inr t \<Rightarrow>
               (case getitem item ''content'' of
                  Inl e \<Rightarrow> Some e
                | Inr c \<Rightarrow> if sliceable c then None else Some TypeError)))"

fun first_raised :: "pyval list \<Rightarrow> exn option" where
  "first_raised [] = None"
| "first_raised (item # rest) =
     (case summarize_item item of None \<Rightarrow> first_raised rest | Some e \<Rightarrow> Some e)"

definition summarize_content :: "pyval \<Rightarrow> exn option" where
  "summarize_content extracted_content =
     (case extracted_content of
        PList items \<Rightarrow> first_raised (take 5 items)
      | _ \<Rightarrow> Some TypeError)"

definition generate_basic_template :: "string \<Rightarrow> string \<Rightarrow> pyval" where
  "generate_basic_template document_type q =
     PDict
       [(''sections'', PDict
          [(''executive_summary'', PDict
              [(''title'', PStr ''Resumen Ejecutivo''),
               (''content'', PStr (''Resumen ejecutivo para el proyecto '' @ q)),
               (''confidence'', PFloat (2 / 10))]),
           (''project_description'', PDict
              [(''title'', PStr (''Descripci'' @ [CHR 0xC3, CHR 0xB3] @ ''n del Proyecto'')),
               (''content'', PStr (''Descripci'' @ [CHR 0xC3, CHR 0xB3] @ ''n t''
                                    @ [CHR 0xC3, CHR 0xA9] @ ''cnica del proyecto '' @ q)),
               (''confidence'', PFloat (2 / 10))])]),
        (''document_type'', PStr document_type),
        (''source_files'', PInt 0),
        (''query'', PStr q),
        (''using_mock'', PBool True)]"

definition ContentGenerator_execute :: "generator \<Rightarrow> pyval \<Rightarrow> string \<Rightarrow> string \<Rightarrow> work" where
  "ContentGenerator_execute g extracted_content q document_type =
     (if \<not> truthy extracted_content then
        \<lparr>calls = [emit_step ''analysis'' ''Analyzing source content'',
                  emit_warning ''No content to analyze, generating basic template'' None],
         outcome = Inr (generate_basic_template document_type q)\<rparr>
      else
        (case summarize_content extracted_content of
           Some e \<Rightarrow>
             \<lparr>calls = [emit_step ''analysis'' ''Analyzing source content''], outcome = Inl e\<rparr>
         | None \<Rightarrow>
             (let n = int (length sections);
                  (cs, generated_sections) = generate_sections g 0 n sections
              in \<lparr>calls =
                    [emit_step ''analysis'' ''Analyzing source content'',
                     emit_step ''generation'' ''Generating document sections'']
                    @ cs
                    @ [emit_progress n n ''Content generation complete''],
                  outcome =
                    (case py_len extracted_content of
                       Inl e \<Rightarrow> Inl e
                     | Inr source_files \<Rightarrow> Inr (PDict
                         [(''sections'', PDict generated_sections),
                          (''document_type'', PStr document_type),
                          (''source_files'', source_files),
                          (''query'', PStr q),
                          (''using_mock'', PBool (use_mock g))]))\<rparr>)))"

section \<open>document\_assembler.py\<close>

text \<open>
  The assembler's four helpers build the metadata, render the two documents and write
  the files; each is a parameter here, returning its value or raising.
\<close>

record assembler =
  generate_metadata :: "string \<Rightarrow> string \<Rightarrow> pyval \<Rightarrow> exn + pyval"
  create_markdown_document :: "pyval \<Rightarrow> pyval \<Rightarrow> exn + pyval"
  create_html_document :: "pyval \<Rightarrow> pyval \<Rightarrow> exn + pyval"
  save_documents :: "pyval \<Rightarrow> pyval \<Rightarrow> string \<Rightarrow> string \<Rightarrow> exn + pyval"

definition DocumentAssembler_execute :: "assembler \<Rightarrow> pyval \<Rightarrow> string \<Rightarrow> string \<Rightarrow> work" where
  "DocumentAssembler_execute a generated_sections q document_type =
     (let s0 = emit_step ''assembly'' ''Assembling final document'';
          p1 = emit_progress 1 4 ''Creating markdown version'';
          p2 = emit_progress 2 4 ''Creating HTML version'';
          p3 = emit_progress 3 4 ''Saving documents'';
          p4 = emit_progress 4 4 ''Document assembly complete''
      in case generated_sections of
           PDict d \<Rightarrow>
             (let secs = (case map_of d ''sections'' of None \<Rightarrow> PDict [] | Some v \<Rightarrow> v) in
              if \<not> truthy secs then
                \<lparr>calls = [s0], outcome = Inl (ValueError ''No sections provided for assembly'')\<rparr>
              else
                (case generate_metadata a q document_type generated_sections of
                   Inl e \<Rightarrow> \<lparr>calls = [s0], outcome = Inl e\<rparr>
                 | Inr metadata \<Rightarrow>
                     (case create_markdown_document a secs metadata of
                        Inl e \<Rightarrow> \<lparr>calls = [s0, p1], outcome = Inl e\<rparr>
                      | Inr markdown_content \<Rightarrow>
                          (case create_html_document a secs metadata of
                             Inl e \<Rightarrow> \<lparr>calls = [s0, p1, p2], outcome = Inl e\<rparr>
                           | Inr html_content \<Rightarrow>
                               (case save_documents a markdown_content html_content q document_type of
                                  Inl e \<Rightarrow> \<lparr>calls = [s0, p1, p2, p3], outcome = Inl e\<rparr>
                                | Inr file_paths \<Rightarrow>
                                    \<lparr>calls = [s0, p1, p2, p3, p4],
                                     outcome =
                                       (case py_len secs of
                                          Inl e \<Rightarrow> Inl e
                                        | Inr sections_count \<Rightarrow> Inr (PDict
                                            [(''markdown'', markdown_content),
                                             (''html'', html_content),
                                             (''files'', file_paths),
                                             (''metadata'', metadata),
                                             (''sections_count'', sections_count),
                                             (''document_type'', PStr document_type)]))\<rparr>)))))
         | _ \<Rightarrow> \<lparr>calls = [s0], outcome = Inl AttributeError\<rparr>)"

section \<open>bess\_orchestrator.py: the pipeline\<close>

text \<open>
  The orchestrator's state is the registry of runs together with the ambient process.
  The pipeline calls \<^verbatim>\<open>execute\<close> on three agent objects, whatever their classes; their
  \<^verbatim>\<open>_execute\<close> methods are its parameters, as are the fields of the three agents.
\<close>

type_synonym state = "registry \<times> ambient"

record stages =
  doc_processor_execute :: "string \<Rightarrow> int \<Rightarrow> work"
  content_generator_execute :: "pyval \<Rightarrow> string \<Rightarrow> string \<Rightarrow> work"
  doc_assembler_execute :: "pyval \<Rightarrow> string \<Rightarrow> string \<Rightarrow> work"

record agents =
  doc_processor :: BaseAgent
  content_generator :: BaseAgent
  doc_assembler :: BaseAgent

definition bess_stages :: "doc_file list \<Rightarrow> generator \<Rightarrow> assembler \<Rightarrow> stages" where
  "bess_stages found g a =
     \<lparr>doc_processor_execute = DocumentProcessor_execute found,
      content_generator_execute = ContentGenerator_execute g,
      doc_assembler_execute = DocumentAssembler_execute a\<rparr>"

definition bess_agents :: agents where
  "bess_agents =
     \<lparr>doc_processor = \<lparr>self_agent_id = ''document_processor'', is_running = False, current_run_id = None\<rparr>,
      content_generator = \<lparr>self_agent_id = ''content_generator'', is_running = False, current_run_id = None\<rparr>,
      doc_assembler = \<lparr>self_agent_id = ''document_assembler'', is_running = False, current_run_id = None\<rparr>\<rparr>"

text \<open>An assignment to a field of the run object the registry holds under \<open>rid\<close>.\<close>

definition update_run :: "string \<Rightarrow> (RunState \<Rightarrow> RunState) \<Rightarrow> registry \<Rightarrow> registry" where
  "update_run rid f runs = (case runs rid of None \<Rightarrow> runs | Some run_state \<Rightarrow> runs(rid \<mapsto> f run_state))"

definition set_current_step :: "string \<Rightarrow> pyval \<Rightarrow> state \<Rightarrow> state" where
  "set_current_step rid v st = (update_run rid (\<lambda>r. r\<lparr>current_step := v\<rparr>) (fst st), snd st)"

text \<open>Sequencing of steps that may raise.\<close>

definition and_then :: "exn + 'a \<Rightarrow> ('a \<Rightarrow> exn + 'b) \<Rightarrow> exn + 'b" where
  "and_then x f = (case x of Inl e \<Rightarrow> Inl e | Inr v \<Rightarrow> f v)"

text \<open>
  The dictionary display \<^verbatim>\<open>final_result = {...}\<close>: its items are evaluated in the order
  written, and the first subscript on a missing key raises \<^verbatim>\<open>KeyError\<close>.
\<close>

definition final_result :: "pyval \<Rightarrow> pyval \<Rightarrow> pyval \<Rightarrow> string \<Rightarrow> exn + pyval" where
  "final_result doc_result content_result assembly_result q =
     and_then (getitem doc_result ''total_found'') (\<lambda>files_found.
     and_then (getitem doc_result ''total_processed'') (\<lambda>files_processed.
     and_then (getitem doc_result ''processed_files'') (\<lambda>processed_files.
     and_then (and_then (getitem content_result ''sections'') py_len) (\<lambda>sections_generated.
     and_then (getitem content_result ''using_mock'') (\<lambda>using_mock.
     and_then (getitem content_result ''sections'') (\<lambda>secs.
     and_then (getitem assembly_result ''markdown'') (\<lambda>markdown.
     and_then (getitem assembly_result ''html'') (\<lambda>html.
     and_then (getitem assembly_result ''files'') (\<lambda>files.
     and_then (getitem assembly_result ''metadata'') (\<lambda>metadata.
     and_then (getitem doc_result ''total_processed'') (\<lambda>source_files_processed.
     and_then (and_then (getitem content_result ''sections'') py_len) (\<lambda>sections_generated2.
     and_then (getitem assembly_result ''files'') (\<lambda>output_files.
       Inr (PDict
         [(''pipeline_completed'', PBool True),
          (''document_processing'', PDict
             [(''files_found'', files_found),
              (''files_processed'', files_processed),
              (''processed_files'', processed_files)]),
          (''content_generation'', PDict
             [(''sections_generated'', sections_generated),
              (''using_mock'', using_mock),
              (''sections'', secs)]),
          (''document_assembly'', PDict
             [(''markdown'', markdown),
              (''html'', html),
              (''files'', files),
              (''metadata'', metadata)]),
          (''summary'', PDict
             [(''query'', PStr q),
              (''document_type'', PStr ''environmental_study_chile_dia_v1''),
              (''source_files_processed'', source_files_processed),
              (''sections_generated'', sections_generated2),
              (''output_files'', output_files)])]))))))))))))))"

text \<open>
  \<^verbatim>\<open>_run_pipeline\<close>: the three stages in order, each fed by the one before, inside one
  \<^verbatim>\<open>try\<close> block whose \<^verbatim>\<open>except\<close> branch stores \<^verbatim>\<open>f"Failed: {str(e)}"\<close> as the current step
  and re-raises.
\<close>

definition pipeline_failed :: "string \<Rightarrow> exn \<Rightarrow> agents \<Rightarrow> state \<Rightarrow> (exn + pyval) \<times> agents \<times> state" where
  "pipeline_failed rid e ags st =
     (Inl e, ags, set_current_step rid (PStr (''Failed: '' @ str_exn e)) st)"

definition run_pipeline ::
  "registry callback list \<Rightarrow> stages \<Rightarrow> agents \<Rightarrow> string \<Rightarrow> string \<Rightarrow> int \<Rightarrow> state \<Rightarrow>
   (exn + pyval) \<times> agents \<times> state" where
  "run_pipeline subscribers stg ags rid q max_docs_arg st0 =
     (let document_type = ''environmental_study_chile_dia_v1'';
          st1 = set_current_step rid (PStr ''Processing source documents'') st0
      in case execute subscribers (doc_processor ags) rid (doc_processor_execute stg q max_docs_arg) st1 of
           (Inl e, a1, st2) \<Rightarrow> pipeline_failed rid e (ags\<lparr>doc_processor := a1\<rparr>) st2
         | (Inr doc_result, a1, st2) \<Rightarrow>
             (let ags1 = ags\<lparr>doc_processor := a1\<rparr>;
                  st3 = set_current_step rid (PStr ''Generating document content'') st2
              in case getitem doc_result ''extracted_content'' of
                   Inl e \<Rightarrow> pipeline_failed rid e ags1 st3
                 | Inr extracted_content \<Rightarrow>
                     (case execute subscribers (content_generator ags1) rid
                             (content_generator_execute stg extracted_content q document_type) st3 of
                        (Inl e, a2, st4) \<Rightarrow> pipeline_failed rid e (ags1\<lparr>content_generator := a2\<rparr>) st4
                      | (Inr content_result, a2, st4) \<Rightarrow>
                          (let ags2 = ags1\<lparr>content_generator := a2\<rparr>;
                               st5 = set_current_step rid (PStr ''Assembling final document'') st4
                           in case execute subscribers (doc_assembler ags2) rid
                                     (doc_assembler_execute stg content_result q document_type) st5 of
                                (Inl e, a3, st6) \<Rightarrow> pipeline_failed rid e (ags2\<lparr>doc_assembler := a3\<rparr>) st6
                              | (Inr assembly_result, a3, st6) \<Rightarrow>
                                  (case final_result doc_result content_result assembly_result q of
                                     Inl e \<Rightarrow> pipeline_failed rid e (ags2\<lparr>doc_assembler := a3\<rparr>) st6
                                   | Inr res \<Rightarrow>
                                       (Inr res, ags2\<lparr>doc_assembler := a3\<rparr>,
                                        set_current_step rid
                                          (PStr ''Generation completed successfully'') st6))))))"

section \<open>base.py: AgentOrchestrator\<close>

text \<open>
  \<^verbatim>\<open>start_run\<close> stores a fresh run, \<^verbatim>\<open>Queued\<close>, under the identifier that \<^verbatim>\<open>uuid4\<close>
  returned (a parameter here), and schedules \<^verbatim>\<open>_execute_run\<close>. The two timestamps of the
  new run are two readings of the clock.
\<close>

definition start_run :: "string \<Rightarrow> string \<Rightarrow> int \<Rightarrow> state \<Rightarrow> state" where
  "start_run rid q max_docs_arg st =
     ((fst st)(rid \<mapsto>
        \<lparr>run_state_id = rid, status = QUEUED, query = q, max_docs = max_docs_arg,
         processed_docs = PInt 0, total_docs = PNone, current_step = PStr [],
         progress = 0, error = None, finished = False,
         created_at = clock (snd st), updated_at = Suc (clock (snd st)),
         result = None, events = []\<rparr>),
      tick (tick (snd st)))"

text \<open>
  \<^verbatim>\<open>_execute_run\<close> in its three parts: the entry into the \<^verbatim>\<open>try\<close> block, the pipeline,
  and what follows it: the rest of the \<^verbatim>\<open>try\<close> block after a result, the \<^verbatim>\<open>except\<close>
  branch after an exception, each with the final refresh of \<^verbatim>\<open>updated_at\<close>.
\<close>

definition begin_run :: "string \<Rightarrow> state \<Rightarrow> state" where
  "begin_run rid st =
     (update_run rid (\<lambda>r. r\<lparr>status := RUNNING, updated_at := clock (snd st)\<rparr>) (fst st),
      tick (snd st))"

text \<open>
  The field \<^verbatim>\<open>result: Optional[Dict]\<close> is unset when it holds \<^verbatim>\<open>None\<close>, so storing the value
  \<^verbatim>\<open>None\<close> leaves it unset.
\<close>

fun stored :: "pyval \<Rightarrow> pyval option" where
  "stored PNone = None"
| "stored v = Some v"

definition finish_succeeded :: "string \<Rightarrow> pyval \<Rightarrow> state \<Rightarrow> state" where
  "finish_succeeded rid res st =
     (update_run rid
        (\<lambda>r. r\<lparr>status := SUCCEEDED, finished := True, result := stored res, progress := 100,
               updated_at := clock (snd st)\<rparr>) (fst st),
      tick (snd st))"

definition finish_failed :: "string \<Rightarrow> exn \<Rightarrow> state \<Rightarrow> state" where
  "finish_failed rid e st =
     (update_run rid
        (\<lambda>r. r\<lparr>status := RUN_FAILED, finished := True, error := Some (str_exn e),
               updated_at := clock (snd st)\<rparr>) (fst st),
      tick (logger (LogRunFailed rid e) (snd st)))"

definition execute_run ::
  "registry callback list \<Rightarrow> stages \<Rightarrow> agents \<Rightarrow> string \<Rightarrow> state \<Rightarrow> exn option \<times> agents \<times> state" where
  "execute_run subscribers stg ags rid st =
     (case fst st rid of
        None \<Rightarrow> (Some (KeyError rid), ags, st)
      | Some run_state \<Rightarrow>
          (case run_pipeline subscribers stg ags rid (query run_state) (max_docs run_state)
                  (begin_run rid st) of
             (Inr res, ags', st') \<Rightarrow> (None, ags', finish_succeeded rid res st')
           | (Inl e, ags', st') \<Rightarrow> (None, ags', finish_failed rid e st')))"

section \<open>The lifetime of a run\<close>

text \<open>
  Between two points where it can be suspended, the code runs undisturbed. The atomic
  actions on one run are: the entry of \<^verbatim>\<open>_execute_run\<close> (\<open>Begin\<close>); the delivery of a
  published event to the orchestrator's subscriber (\<open>Deliver\<close>: \<^verbatim>\<open>emit_event\<close> past its
  guard); an assignment to \<^verbatim>\<open>current_step\<close> by the pipeline (\<open>SetStep\<close>); the end of
  \<^verbatim>\<open>_execute_run\<close> with a result or an exception (\<open>Succeed\<close>, \<open>Fail\<close>); and a call of the
  route \<^verbatim>\<open>cancel_run\<close> (\<open>Cancel\<close>), which can come between any two of the others. The
  global orchestrator of the routes has the one subscriber \<open>handle_agent_event\<close>.
\<close>

datatype action =
    Begin
  | Deliver AgentEvent
  | SetStep pyval
  | Succeed pyval
  | Fail exn
  | Cancel

fun apply_action :: "string \<Rightarrow> state \<Rightarrow> action \<Rightarrow> state" where
  "apply_action rid st Begin = begin_run rid st"
| "apply_action rid st (Deliver event) = snd (emit [handle_agent_event] event (fst st, tick (snd st)))"
| "apply_action rid st (SetStep v) = set_current_step rid v st"
| "apply_action rid st (Succeed res) = finish_succeeded rid res st"
| "apply_action rid st (Fail e) = finish_failed rid e st"
| "apply_action rid st Cancel = (snd (cancel_run rid (fst st)), snd st)"

definition run_of :: "string \<Rightarrow> action list \<Rightarrow> state \<Rightarrow> state" where
  "run_of rid tr st = foldl (apply_action rid) st tr"

text \<open>
  The events the stages publish: none has type \<^verbatim>\<open>ERROR\<close>, and every progress event made
  by \<^verbatim>\<open>emit_progress(current, total)\<close> has \<open>current \<le> total\<close>. \<open>overshoots\<close> holds of a
  payload whose numeric \<open>current\<close> exceeds a positive numeric \<open>total\<close>.
\<close>

definition overshoots :: "pydict \<Rightarrow> bool" where
  "overshoots d =
     (case (map_of d ''current'', map_of d ''total'') of
        (Some cur, Some tot) \<Rightarrow>
          (case (py_num cur, py_num tot) of
             (Some c, Some t) \<Rightarrow> 0 < t \<and> t < c
           | _ \<Rightarrow> False)
      | _ \<Rightarrow> False)"

definition stage_event :: "AgentEvent \<Rightarrow> bool" where
  "stage_event e = (if event_type e = PROGRESS then \<not> overshoots (data e) else event_type e \<noteq> ERROR)"

text \<open>
  Where \<^verbatim>\<open>_execute_run\<close> stands: scheduled by \<^verbatim>\<open>start_run\<close> and not yet entered, inside
  the pipeline, or returned. \<^verbatim>\<open>start_run\<close> hands \<^verbatim>\<open>_execute_run\<close> to the event loop
  (\<^verbatim>\<open>asyncio.create_task\<close>) and returns the new identifier; the task takes its first
  step, which is \<open>Begin\<close>, when the loop next runs it. A caller that goes on to
  \<^verbatim>\<open>cancel_run\<close> without giving way to the loop has its request served before \<open>Begin\<close>,
  so a cancel request can come in every phase. An event published for the run can be
  delivered while the pipeline runs and, when another run's stage holds this run's
  identifier, after it has returned. \<open>phase_after\<close> gives the phase a sequence of
  actions leads to, if the sequence can happen.
\<close>

datatype phase = Scheduled | InPipeline | Returned

fun next_phase :: "phase \<Rightarrow> action \<Rightarrow> phase option" where
  "next_phase Scheduled Begin = Some InPipeline"
| "next_phase Scheduled Cancel = Some Scheduled"
| "next_phase InPipeline (Deliver event) = (if stage_event event then Some InPipeline else None)"
| "next_phase InPipeline (SetStep v) = Some InPipeline"
| "next_phase InPipeline (Succeed res) = Some Returned"
| "next_phase InPipeline (Fail e) = Some Returned"
| "next_phase InPipeline Cancel = Some InPipeline"
| "next_phase Returned Cancel = Some Returned"
| "next_phase Returned (Deliver event) = (if stage_event event then Some Returned else None)"
| "next_phase ph a = None"

fun phase_after :: "phase \<Rightarrow> action list \<Rightarrow> phase option" where
  "phase_after ph [] = Some ph"
| "phase_after ph (a # tr) =
     (case next_phase ph a of None \<Rightarrow> None | Some ph' \<Rightarrow> phase_after ph' tr)"

definition lifetime :: "action list \<Rightarrow> bool" where
  "lifetime tr = (phase_after Scheduled tr \<noteq> None)"

text \<open>The run \<open>rid\<close> after the actions \<open>tr\<close>, started with the given request.\<close>

definition run_after :: "string \<Rightarrow> string \<Rightarrow> int \<Rightarrow> state \<Rightarrow> action list \<Rightarrow> RunState option" where
  "run_after rid q max_docs_arg st tr = fst (run_of rid tr (start_run rid q max_docs_arg st)) rid"

text \<open>
  The route answers a cancel request with success or with an error (404, 400). A request
  is accepted in a state when the answer is a success, and accepted while Queued when
  the run's status is then \<^verbatim>\<open>Queued\<close>. \<open>accepted_in\<close> tells whether one of the cancel
  requests among the actions \<open>tr\<close>, performed from the state \<open>st\<close>, is accepted with the
  run then satisfying \<open>P\<close>.
\<close>

definition accepted :: "string \<Rightarrow> state \<Rightarrow> bool" where
  "accepted rid st = (case fst (cancel_run rid (fst st)) of Inl e \<Rightarrow> False | Inr ok \<Rightarrow> True)"

definition queued :: "string \<Rightarrow> state \<Rightarrow> bool" where
  "queued rid st = (case fst st rid of None \<Rightarrow> False | Some r \<Rightarrow> status r = QUEUED)"

fun accepted_in :: "(state \<Rightarrow> bool) \<Rightarrow> string \<Rightarrow> state \<Rightarrow> action list \<Rightarrow> bool" where
  "accepted_in P rid st [] = False"
| "accepted_in P rid st (a # tr) =
     ((a = Cancel \<and> accepted rid st \<and> P st) \<or> accepted_in P rid (apply_action rid st a) tr)"

definition cancel_accepted :: "string \<Rightarrow> string \<Rightarrow> int \<Rightarrow> state \<Rightarrow> action list \<Rightarrow> bool" where
  "cancel_accepted rid q max_docs_arg st tr =
     accepted_in (\<lambda>x. True) rid (start_run rid q max_docs_arg st) tr"

definition canceled_while_queued :: "string \<Rightarrow> string \<Rightarrow> int \<Rightarrow> state \<Rightarrow> action list \<Rightarrow> bool" where
  "canceled_while_queued rid q max_docs_arg st tr =
     accepted_in (queued rid) rid (start_run rid q max_docs_arg st) tr"

section \<open>Observations and the specification's tables\<close>

text \<open>
  The emitter logs every event it is given (\<^verbatim>\<open>logger.info\<close>), so the events emitted
  up to a state are the \<open>LogInfo\<close> records of its log; \<open>since st st'\<close> lists the types
  of the events emitted between two states.
\<close>

fun emitted :: "log_record list \<Rightarrow> AgentEvent list" where
  "emitted [] = []"
| "emitted (LogInfo e # rs) = e # emitted rs"
| "emitted (r # rs) = emitted rs"

definition kinds :: "'s \<times> ambient \<Rightarrow> EventType list" where
  "kinds st = map event_type (emitted (logged (snd st)))"

definition since :: "'s \<times> ambient \<Rightarrow> 's \<times> ambient \<Rightarrow> EventType list" where
  "since st st' = drop (length (kinds st)) (kinds st')"

text \<open>The type of the event that ends an invocation of \<open>execute\<close> with the given outcome.\<close>

definition terminal_kind :: "exn + pyval \<Rightarrow> EventType" where
  "terminal_kind out = (case out of Inl e \<Rightarrow> FAILED | Inr res \<Rightarrow> COMPLETED)"

text \<open>
  A spy wraps a subscriber: it behaves as the subscriber does, returning or raising,
  and notes its own position and the event it was called with.
\<close>

definition spy :: "nat \<Rightarrow> 's callback \<Rightarrow> ('s \<times> (nat \<times> AgentEvent) list) callback" where
  "spy i cb event now st =
     (case cb event now (fst st) of (r, s') \<Rightarrow> (r, (s', snd st @ [(i, event)])))"

definition spied :: "'s callback list \<Rightarrow> ('s \<times> (nat \<times> AgentEvent) list) callback list" where
  "spied cbs = map (\<lambda>(i, cb). spy i cb) (enumerate 0 cbs)"

text \<open>What one subscriber leaves behind, whether it returned or raised.\<close>

definition after_callback :: "AgentEvent \<Rightarrow> 's \<times> ambient \<Rightarrow> 's callback \<Rightarrow> 's \<times> ambient" where
  "after_callback event st cb =
     (case cb event (clock (snd st)) (fst st) of
        (None, s') \<Rightarrow> (s', tick (snd st))
      | (Some e, s') \<Rightarrow> (s', logger (LogCallbackError e) (tick (snd st))))"

text \<open>
  The specification's progress table, in its own words: each stage owns a sub-range
  \<open>[lo, hi]\<close> of the progress axis, and a stage-local fraction is mapped into it.
\<close>

definition spec_stage_range :: "string \<Rightarrow> (rat \<times> rat) option" where
  "spec_stage_range s =
     (if s = ''document_processor'' then Some (0, 40)
      else if s = ''content_generator'' then Some (40, 90)
      else if s = ''document_assembler'' then Some (90, 100)
      else None)"

definition spec_mapped :: "rat \<times> rat \<Rightarrow> rat \<Rightarrow> rat \<Rightarrow> rat" where
  "spec_mapped rng c t = fst rng + (if t \<le> 0 then 0 else c / t) * (snd rng - fst rng)"

text \<open>
  The payloads on which float arithmetic can carry out that mapping with the weight
  \<open>k = hi - lo\<close>: when the total is positive, the fraction and the weighted fraction
  are within the range of a float, and so are both operands unless both are integers
  (two integers are divided as integers, whatever their size).
\<close>

definition fits_float :: "pyval \<Rightarrow> pyval \<Rightarrow> rat \<Rightarrow> bool" where
  "fits_float cur tot k =
     (case (py_num cur, py_num tot) of
        (Some c, Some t) \<Rightarrow>
          0 < t \<longrightarrow>
            \<not> float_overflow (c / t) \<and> \<not> float_overflow (c / t * k) \<and>
            (is_int cur \<and> is_int tot \<or> \<not> float_overflow c \<and> \<not> float_overflow t)
      | _ \<Rightarrow> False)"

section \<open>Notions used in the proofs\<close>

text \<open>A run identifier is registered in a state when the registry holds a run under it.\<close>

definition registered :: "string \<Rightarrow> state \<Rightarrow> bool" where
  "registered rid st = (fst st rid \<noteq> None)"

text \<open>
  What holds of a run in each phase of \<^verbatim>\<open>_execute_run\<close>. Of the history so far, \<open>e\<close>
  tells whether a cancel request was accepted while the run was Queued, \<open>c\<close> whether
  one was accepted at all, and \<open>n\<close> whether the pipeline returned \<^verbatim>\<open>None\<close>.
\<close>

definition canceled_by_user :: "string option" where
  "canceled_by_user = Some ''Canceled by user''"

definition run_invariant :: "bool \<Rightarrow> bool \<Rightarrow> bool \<Rightarrow> phase \<Rightarrow> RunState \<Rightarrow> bool" where
  "run_invariant e c n ph r =
     (progress r \<le> 100 \<and> (e \<longrightarrow> c) \<and>
      (case ph of
         Scheduled \<Rightarrow>
           result r = None \<and> \<not> n \<and>
           (if e then status r = CANCELED \<and> finished r \<and> error r = canceled_by_user
            else \<not> c \<and> status r = QUEUED \<and> \<not> finished r \<and> error r = None)
       | InPipeline \<Rightarrow>
           result r = None \<and> \<not> n \<and>
           (if e then status r = RUNNING \<and> finished r \<and> error r = canceled_by_user
            else if c then status r = CANCELED \<and> finished r \<and> error r = canceled_by_user
            else status r = RUNNING \<and> \<not> finished r \<and> error r = None)
       | Returned \<Rightarrow>
           finished r \<and>
           (if status r = SUCCEEDED
            then (result r \<noteq> None) = (\<not> n) \<and> error r = (if c then canceled_by_user else None)
            else status r = RUN_FAILED \<and> result r = None \<and> error r \<noteq> None)))"

text \<open>
  The exception that ends the pipeline when the document stage found no file: the
  one a later stage raises, or else the \<^verbatim>\<open>KeyError\<close> of the final result.
\<close>

definition zero_documents_failure :: "stages \<Rightarrow> string \<Rightarrow> exn" where
  "zero_documents_failure stg q =
     (case outcome (content_generator_execute stg (PList []) q ''environmental_study_chile_dia_v1'') of
        Inl e \<Rightarrow> e
      | Inr content_result \<Rightarrow>
          (case outcome (doc_assembler_execute stg content_result q ''environmental_study_chile_dia_v1'') of
             Inl e \<Rightarrow> e
           | Inr assembly_result \<Rightarrow> KeyError ''total_found''))"

text \<open>
  A call of \<^verbatim>\<open>emit_event\<close> that publishes a stage event, and the actions a stage and
  the pipeline perform between \<open>Begin\<close> and the end of \<^verbatim>\<open>_execute_run\<close>. \<open>walks\<close> relates
  two states joined by such actions; stages are well behaved when all the calls they
  make are of that kind.
\<close>

fun payload :: "call \<Rightarrow> pydict" where
  "payload (Call ty msg dat err) = (case dat of None \<Rightarrow> [] | Some d \<Rightarrow> d)"

definition stage_call :: "call \<Rightarrow> bool" where
  "stage_call c = (if call_type c = PROGRESS then \<not> overshoots (payload c) else call_type c \<noteq> ERROR)"

fun stage_action :: "action \<Rightarrow> bool" where
  "stage_action (Deliver event) = stage_event event"
| "stage_action (SetStep v) = True"
| "stage_action a = False"

definition walks :: "string \<Rightarrow> state \<Rightarrow> state \<Rightarrow> bool" where
  "walks rid st st' = (\<exists>tr. list_all stage_action tr \<and> st' = run_of rid tr st)"

definition well_behaved :: "stages \<Rightarrow> bool" where
  "well_behaved stg =
     ((\<forall>q m. list_all stage_call (calls (doc_processor_execute stg q m))) \<and>
      (\<forall>x q d. list_all stage_call (calls (content_generator_execute stg x q d))) \<and>
      (\<forall>x q d. list_all stage_call (calls (doc_assembler_execute stg x q d))))"

section \<open>Concrete inputs\<close>

definition run1 :: RunState where
  "run1 = \<lparr>run_state_id = ''r1'', status = RUNNING, query = ''BESS'', max_docs = 10,
           processed_docs = PInt 0, total_docs = PNone, current_step = PStr [],
           progress = 20, error = None, finished = False, created_at = 0, updated_at = 1,
           result = None, events = []\<rparr>"

definition registry1 :: registry where
  "registry1 = Map.empty(''r1'' \<mapsto> run1)"

definition progress_event :: "string \<Rightarrow> int \<Rightarrow> int \<Rightarrow> AgentEvent" where
  "progress_event agent c t =
     \<lparr>run_id = ''r1'', agent_id = agent, event_type = PROGRESS, timestamp = 7,
      message = ''working'', data = [(''current'', PInt c), (''total'', PInt t)],
      event_error = None\<rparr>"

definition ambient0 :: ambient where
  "ambient0 = \<lparr>clock = 0, logged = []\<rparr>"

definition agent0 :: BaseAgent where
  "agent0 = \<lparr>self_agent_id = ''document_processor'', is_running = False, current_run_id = None\<rparr>"

definition raising :: "nat callback" where
  "raising event now n = (Some (ValueError ''boom''), Suc n)"

definition counting :: "nat callback" where
  "counting event now n = (None, n + 10)"

definition delivered_half :: AgentEvent where
  "delivered_half =
     \<lparr>run_id = ''r1'', agent_id = ''document_processor'', event_type = PROGRESS, timestamp = 3,
      message = ''Processing a.txt'',
      data = [(''current'', PInt 1), (''total'', PInt 2), (''progress'', PFloat 50)],
      event_error = None\<rparr>"

definition state0 :: state where
  "state0 = (Map.empty, ambient0)"

definition generator0 :: generator where
  "generator0 = \<lparr>use_mock = True, generate = (\<lambda>section_id. Generated None ''text'')\<rparr>"

definition assembler0 :: assembler where
  "assembler0 =
     \<lparr>generate_metadata = (\<lambda>q document_type generated. Inr (PDict [(''project_name'', PStr q)])),
      create_markdown_document = (\<lambda>secs metadata. Inr (PStr ''# markdown'')),
      create_html_document = (\<lambda>secs metadata. Inr (PStr ''<html>'')),
      save_documents = (\<lambda>markdown html q document_type. Inr (PDict [(''directory'', PStr ''documents'')]))\<rparr>"

section \<open>Auxiliary facts\<close>

lemma true_divide_result:
  "true_divide a b = Inr q \<Longrightarrow> \<exists>x y. py_num a = Some x \<and> py_num b = Some y \<and> q = x / y"
  by (auto simp: true_divide_def split: option.splits if_splits)

lemma weighted_numeric:
  "py_num cur = Some c \<Longrightarrow> py_num tot = Some t \<Longrightarrow> fits_float cur tot k' \<Longrightarrow>
   weighted cur tot k = Inr (if t > 0 then (c / t) * k else 0)"
  by (auto simp: weighted_def true_divide_def fits_float_def)

lemma get_run_status_finished:
  "runs rid = Some rs \<Longrightarrow> get_run_status runs rid = Some (to_dict rs)"
  by (simp add: get_run_status_def)

lemma to_dict_finished: "dict_get (to_dict rs) ''finished'' = PBool (finished rs)"
  by (simp add: to_dict_def dict_get_def)

lemma deliver_spy:
  "fst (deliver (map (\<lambda>(i, cb). spy i cb) (enumerate k cbs)) event ((s, tr), y)) = None \<and>
   snd (fst (snd (deliver (map (\<lambda>(i, cb). spy i cb) (enumerate k cbs)) event ((s, tr), y)))) =
     tr @ map (\<lambda>i. (i, event)) [k..<k + length cbs]"
proof (induction cbs arbitrary: k s tr y)
  case Nil
  then show ?case by simp
next
  case (Cons cb cbs)
  obtain r s' where cb: "cb event (clock y) s = (r, s')" by (cases "cb event (clock y) s")
  have upt: "[k..<k + length (cb # cbs)] = k # [Suc k..<Suc k + length cbs]"
    by (subst upt_rec) simp
  show ?case
  proof (cases r)
    case None
    then show ?thesis
      using Cons.IH [of "Suc k" s' "tr @ [(k, event)]" "tick y"] cb upt
      by (simp add: spy_def)
  next
    case (Some e)
    then show ?thesis
      using Cons.IH [of "Suc k" s' "tr @ [(k, event)]" "logger (LogCallbackError e) (tick y)"] cb upt
      by (simp add: spy_def)
  qed
qed

lemma deliver_never_raises: "fst (deliver subs event st) = None"
proof (induction subs arbitrary: st)
  case Nil
  then show ?case by simp
next
  case (Cons cb subs)
  obtain s y where st: "st = (s, y)" by (cases st)
  show ?case using Cons.IH unfolding st
    by (simp split: prod.split option.split)
qed

lemma deliver_foldl: "snd (deliver subs event st) = foldl (after_callback event) st subs"
proof (induction subs arbitrary: st)
  case Nil
  then show ?case by simp
next
  case (Cons cb subs)
  obtain s y where st: "st = (s, y)" by (cases st)
  show ?case using Cons.IH unfolding st
    by (simp add: after_callback_def split: prod.split option.split)
qed

lemma emitted_append: "emitted (xs @ ys) = emitted xs @ emitted ys"
  by (induction xs rule: emitted.induct) simp_all

lemma deliver_kinds: "kinds (snd (deliver subs event st)) = kinds st"
proof (induction subs arbitrary: st)
  case Nil
  then show ?case by simp
next
  case (Cons cb subs)
  obtain s y where st: "st = (s, y)" by (cases st)
  show ?case unfolding st
    by (simp add: Cons.IH split: prod.split option.split)
       (simp add: kinds_def tick_def logger_def emitted_append)
qed

lemma emit_kinds: "kinds (snd (emit subs event st)) = kinds st @ [event_type event]"
  by (simp add: emit_def deliver_kinds) (simp add: kinds_def logger_def emitted_append)

lemma emit_never_raises: "fst (emit subs event st) = None"
  by (simp add: emit_def deliver_never_raises)

lemma emit_event_never_raises: "fst (emit_event subs self ty msg dat err st) = None"
  by (simp add: emit_event_def emit_never_raises Let_def split: option.split)

lemma emit_event_kinds:
  "current_run_id self = Some rid \<Longrightarrow> rid \<noteq> [] \<Longrightarrow>
   kinds (snd (emit_event subs self ty msg dat err st)) = kinds st @ [ty]"
  by (simp add: emit_event_def Let_def emit_kinds) (simp add: kinds_def tick_def)

lemma emit_event_result: "\<exists>st'. emit_event subs self ty msg dat err st = (None, st')"
  using emit_event_never_raises [of subs self ty msg dat err st] by (metis prod.collapse)

lemma perform_never_raises: "fst (perform subs self cs st) = None"
proof (induction cs arbitrary: st)
  case Nil
  then show ?case by simp
next
  case (Cons c cs)
  obtain ty msg dat err where c: "c = Call ty msg dat err" by (cases c)
  obtain st' where e: "emit_event subs self ty msg dat err st = (None, st')"
    using emit_event_result by blast
  show ?case unfolding c using e Cons.IH by simp
qed

lemma perform_result: "\<exists>st'. perform subs self cs st = (None, st')"
  using perform_never_raises [of subs self cs st] by (metis prod.collapse)

lemma perform_kinds:
  "current_run_id self = Some rid \<Longrightarrow> rid \<noteq> [] \<Longrightarrow>
   kinds (snd (perform subs self cs st)) = kinds st @ map call_type cs"
proof (induction cs arbitrary: st)
  case Nil
  then show ?case by simp
next
  case (Cons c cs)
  obtain ty msg dat err where c: "c = Call ty msg dat err" by (cases c)
  obtain st' where e: "emit_event subs self ty msg dat err st = (None, st')"
    using emit_event_result by blast
  have "kinds st' = kinds st @ [ty]"
    using emit_event_kinds [OF Cons.prems, of subs ty msg dat err st] e by simp
  then show ?case unfolding c using Cons.IH [OF Cons.prems, of st'] e by simp
qed

lemma execute_kinds:
  assumes "rid \<noteq> []"
  shows "fst (execute subs self rid w st) = outcome w \<and>
         fst (snd (execute subs self rid w st)) = idle (self\<lparr>current_run_id := Some rid, is_running := True\<rparr>) \<and>
         kinds (snd (snd (execute subs self rid w st))) =
           kinds st @ [STARTED] @ map call_type (calls w) @ [terminal_kind (outcome w)]"
proof -
  define self1 where "self1 = self\<lparr>current_run_id := Some rid, is_running := True\<rparr>"
  define m1 where "m1 = ''Starting '' @ self_agent_id self1"
  define m2 where "m2 = ''Failed '' @ self_agent_id self1"
  define m3 where "m3 = ''Completed '' @ self_agent_id self1"
  have cur: "current_run_id self1 = Some rid" by (simp add: self1_def)
  obtain st1 where s1: "emit_event subs self1 STARTED m1 None None st = (None, st1)"
    using emit_event_result by blast
  have k1: "kinds st1 = kinds st @ [STARTED]"
    using emit_event_kinds [OF cur assms, of subs STARTED m1 None None st] s1 by simp
  obtain st2 where s2: "perform subs self1 (calls w) st1 = (None, st2)"
    using perform_result by blast
  have k2: "kinds st2 = kinds st1 @ map call_type (calls w)"
    using perform_kinds [OF cur assms, of subs "calls w" st1] s2 by simp
  show ?thesis
  proof (cases "outcome w")
    case (Inl e)
    obtain st3 where s3: "emit_event subs self1 FAILED m2 None (Some (str_exn e)) st2 = (None, st3)"
      using emit_event_result by blast
    have k3: "kinds st3 = kinds st2 @ [FAILED]"
      using emit_event_kinds [OF cur assms, of subs FAILED m2 None "Some (str_exn e)" st2] s3 by simp
    show ?thesis
      unfolding execute_def Let_def self1_def [symmetric] m1_def [symmetric] m2_def [symmetric]
        m3_def [symmetric]
      using s1 s2 s3 k1 k2 k3 Inl by (simp add: terminal_kind_def)
  next
    case (Inr res)
    obtain st3 where s3: "emit_event subs self1 COMPLETED m3 (Some [(''result'', py_str res)]) None st2 = (None, st3)"
      using emit_event_result by blast
    have k3: "kinds st3 = kinds st2 @ [COMPLETED]"
      using emit_event_kinds [OF cur assms, of subs COMPLETED m3 "Some [(''result'', py_str res)]" None st2] s3 by simp
    show ?thesis
      unfolding execute_def Let_def self1_def [symmetric] m1_def [symmetric] m2_def [symmetric]
        m3_def [symmetric]
      using s1 s2 s3 k1 k2 k3 Inr by (simp add: terminal_kind_def)
  qed
qed

lemma perform_steps:
  "run_steps subs (self, st) (map Emit cs) = (self, snd (perform subs self cs st))"
proof (induction cs arbitrary: st)
  case Nil
  then show ?case by (simp add: run_steps_def)
next
  case (Cons c cs)
  obtain ty msg dat err where c: "c = Call ty msg dat err" by (cases c)
  obtain st' where e: "emit_event subs self ty msg dat err st = (None, st')"
    using emit_event_result by blast
  show ?case unfolding c using e Cons.IH [of st'] by (simp add: run_steps_def)
qed

lemma run_steps_append:
  "run_steps subs x (xs @ ys) = run_steps subs (run_steps subs x xs) ys"
  by (simp add: run_steps_def)

lemma execute_steps:
  "execute subs self rid w st = (outcome w, run_steps subs (self, st) (invocation rid w))"
proof -
  define self1 where "self1 = self\<lparr>current_run_id := Some rid, is_running := True\<rparr>"
  define m1 where "m1 = ''Starting '' @ self_agent_id self1"
  define m2 where "m2 = ''Failed '' @ self_agent_id self1"
  define m3 where "m3 = ''Completed '' @ self_agent_id self1"
  obtain st1 where s1: "emit_event subs self1 STARTED m1 None None st = (None, st1)"
    using emit_event_result by blast
  obtain st2 where s2: "perform subs self1 (calls w) st1 = (None, st2)"
    using perform_result by blast
  have name: "self_agent_id self1 = self_agent_id self" by (simp add: self1_def)
  have enter: "run_steps subs (self, st) [Enter rid] = (self1, st1)"
    using s1 by (simp add: run_steps_def Let_def self1_def [symmetric] m1_def name)
  have emits: "run_steps subs (self1, st1) (map Emit (calls w)) = (self1, st2)"
    using perform_steps [of subs self1 st1 "calls w"] s2 by simp
  have steps: "run_steps subs (self, st) (invocation rid w) =
      run_steps subs (self1, st2) [Leave (outcome w)]"
    using enter emits run_steps_append [of subs "(self, st)" "[Enter rid]" "map Emit (calls w) @ [Leave (outcome w)]"]
      run_steps_append [of subs "(self1, st1)" "map Emit (calls w)" "[Leave (outcome w)]"]
    by (simp add: invocation_def)
  show ?thesis
  proof (cases "outcome w")
    case (Inl e)
    obtain st3 where s3: "emit_event subs self1 FAILED m2 None (Some (str_exn e)) st2 = (None, st3)"
      using emit_event_result by blast
    have "run_steps subs (self1, st2) [Leave (outcome w)] = (idle self1, st3)"
      using s3 Inl by (simp add: run_steps_def m2_def)
    then show ?thesis
      unfolding steps
      unfolding execute_def Let_def self1_def [symmetric] m1_def [symmetric] m2_def [symmetric]
        m3_def [symmetric]
      using s1 s2 s3 Inl by simp
  next
    case (Inr res)
    obtain st3 where s3: "emit_event subs self1 COMPLETED m3 (Some [(''result'', py_str res)]) None st2 = (None, st3)"
      using emit_event_result by blast
    have "run_steps subs (self1, st2) [Leave (outcome w)] = (idle self1, st3)"
      using s3 Inr by (simp add: run_steps_def m3_def)
    then show ?thesis
      unfolding steps
      unfolding execute_def Let_def self1_def [symmetric] m1_def [symmetric] m2_def [symmetric]
        m3_def [symmetric]
      using s1 s2 s3 Inr by simp
  qed
qed

text \<open>
  Two invocations on one agent object that overlap: the second enters while the first
  is suspended in its stage, and leaves first. The second's \<^verbatim>\<open>finally\<close> block clears
  \<^verbatim>\<open>current_run_id\<close>, so the first one's terminal event meets the guard of \<^verbatim>\<open>emit_event\<close>
  and is not published: the run \<open>r1\<close> gets a \<^verbatim>\<open>STARTED\<close> event and no terminal one.
\<close>

lemma overlapping_invocations:
  "map (\<lambda>e. (run_id e, event_type e))
     (emitted (logged (snd (snd (run_steps [counting] (agent0, (0, ambient0))
        [Enter ''r1'', Enter ''r2'', Leave (Inr PNone), Leave (Inr PNone)]))))) =
   [(''r1'', STARTED), (''r2'', STARTED), (''r2'', COMPLETED)]"
  by (simp add: run_steps_def emit_event_def emit_def agent0_def ambient0_def idle_def
      logger_def tick_def counting_def Let_def)

subsection \<open>The subscriber keeps the registry's keys and a run's status\<close>

lemma execute_outcome: "fst (execute subs self rid w st) = outcome w"
proof -
  define self1 where "self1 = self\<lparr>current_run_id := Some rid, is_running := True\<rparr>"
  define m1 where "m1 = ''Starting '' @ self_agent_id self1"
  define m2 where "m2 = ''Failed '' @ self_agent_id self1"
  define m3 where "m3 = ''Completed '' @ self_agent_id self1"
  obtain st1 where s1: "emit_event subs self1 STARTED m1 None None st = (None, st1)"
    using emit_event_result by blast
  obtain st2 where s2: "perform subs self1 (calls w) st1 = (None, st2)"
    using perform_result by blast
  show ?thesis
  proof (cases "outcome w")
    case (Inl e)
    obtain st3 where s3: "emit_event subs self1 FAILED m2 None (Some (str_exn e)) st2 = (None, st3)"
      using emit_event_result by blast
    show ?thesis
      unfolding execute_def Let_def self1_def [symmetric] m1_def [symmetric] m2_def [symmetric]
        m3_def [symmetric]
      using s1 s2 s3 Inl by simp
  next
    case (Inr res)
    obtain st3 where s3: "emit_event subs self1 COMPLETED m3 (Some [(''result'', py_str res)]) None st2 = (None, st3)"
      using emit_event_result by blast
    show ?thesis
      unfolding execute_def Let_def self1_def [symmetric] m1_def [symmetric] m2_def [symmetric]
        m3_def [symmetric]
      using s1 s2 s3 Inr by simp
  qed
qed

lemma execute_triple:
  "\<exists>a st'. execute subs self rid w st = (outcome w, a, st')"
  using execute_outcome [of subs self rid w st] by (metis prod.collapse)

lemma handler_registered:
  "(snd (handle_agent_event event now runs) k = None) = (runs k = None)"
  by (simp add: handle_agent_event_def split: option.split prod.split)

lemma deliver_handler:
  "fst (snd (deliver [handle_agent_event] event st)) =
     snd (handle_agent_event event (clock (snd st)) (fst st))"
  by (cases st) (simp split: prod.split option.split)

lemma emit_handler:
  "fst (snd (emit [handle_agent_event] event st)) =
     snd (handle_agent_event event (clock (snd st)) (fst st))"
  by (simp only: emit_def deliver_handler) (simp add: logger_def)

lemma emit_event_registered:
  "registered k (snd (emit_event [handle_agent_event] self ty msg dat err st)) = registered k st"
  by (simp add: emit_event_def registered_def emit_handler handler_registered Let_def
      del: not_None_eq split: option.split)

lemma perform_registered:
  "registered k (snd (perform [handle_agent_event] self cs st)) = registered k st"
proof (induction cs arbitrary: st)
  case Nil
  then show ?case by simp
next
  case (Cons c cs)
  obtain ty msg dat err where c: "c = Call ty msg dat err" by (cases c)
  obtain st' where e: "emit_event [handle_agent_event] self ty msg dat err st = (None, st')"
    using emit_event_result by blast
  have "registered k st' = registered k st"
    using emit_event_registered [of k self ty msg dat err st] e by simp
  then show ?case unfolding c using e Cons.IH [of st'] by simp
qed

lemma execute_registered:
  "registered k (snd (snd (execute [handle_agent_event] self rid w st))) = registered k st"
proof -
  define self1 where "self1 = self\<lparr>current_run_id := Some rid, is_running := True\<rparr>"
  define m1 where "m1 = ''Starting '' @ self_agent_id self1"
  define m2 where "m2 = ''Failed '' @ self_agent_id self1"
  define m3 where "m3 = ''Completed '' @ self_agent_id self1"
  obtain st1 where s1: "emit_event [handle_agent_event] self1 STARTED m1 None None st = (None, st1)"
    using emit_event_result by blast
  have r1: "registered k st1 = registered k st"
    using emit_event_registered [of k self1 STARTED m1 None None st] s1 by simp
  obtain st2 where s2: "perform [handle_agent_event] self1 (calls w) st1 = (None, st2)"
    using perform_result by blast
  have r2: "registered k st2 = registered k st1"
    using perform_registered [of k self1 "calls w" st1] s2 by simp
  show ?thesis
  proof (cases "outcome w")
    case (Inl e)
    obtain st3 where s3: "emit_event [handle_agent_event] self1 FAILED m2 None (Some (str_exn e)) st2 = (None, st3)"
      using emit_event_result by blast
    have r3: "registered k st3 = registered k st2"
      using emit_event_registered [of k self1 FAILED m2 None "Some (str_exn e)" st2] s3 by simp
    show ?thesis
      unfolding execute_def Let_def self1_def [symmetric] m1_def [symmetric] m2_def [symmetric]
        m3_def [symmetric]
      using s1 s2 s3 r1 r2 r3 Inl by simp
  next
    case (Inr res)
    obtain st3 where s3: "emit_event [handle_agent_event] self1 COMPLETED m3 (Some [(''result'', py_str res)]) None st2 = (None, st3)"
      using emit_event_result by blast
    have r3: "registered k st3 = registered k st2"
      using emit_event_registered [of k self1 COMPLETED m3 "Some [(''result'', py_str res)]" None st2] s3
      by simp
    show ?thesis
      unfolding execute_def Let_def self1_def [symmetric] m1_def [symmetric] m2_def [symmetric]
        m3_def [symmetric]
      using s1 s2 s3 r1 r2 r3 Inr by simp
  qed
qed

lemma set_current_step_registered:
  "registered k (set_current_step rid v st) = registered k st"
  by (simp add: set_current_step_def registered_def update_run_def split: option.split)

lemma execute_cases:
  assumes "execute [handle_agent_event] self rid w st = (r, a, st')"
  shows "r = outcome w \<and> registered k st' = registered k st"
  using execute_outcome [of "[handle_agent_event]" self rid w st]
    execute_registered [of k self rid w st] assms by simp

lemma run_pipeline_registered:
  "registered k (snd (snd (run_pipeline [handle_agent_event] stg ags rid q m st))) = registered k st"
  unfolding run_pipeline_def Let_def pipeline_failed_def
  by (auto split: prod.split sum.split dest!: execute_cases [where k = k]
      simp: set_current_step_registered)

lemma begin_run_registered: "registered k (begin_run rid st) = registered k st"
  by (simp add: begin_run_def registered_def update_run_def split: option.split)

lemma finish_failed_status:
  "fst st rid = Some r \<Longrightarrow>
   fst (finish_failed rid e st) rid =
     Some (r\<lparr>status := RUN_FAILED, finished := True, error := Some (str_exn e),
             updated_at := clock (logger (LogRunFailed rid e) (snd st))\<rparr>)"
  by (simp add: finish_failed_def update_run_def logger_def)

lemma weighted_le:
  assumes "weighted cur tot k = Inr x" and "0 \<le> k"
    and "\<not> (case (py_num cur, py_num tot) of (Some c, Some t) \<Rightarrow> 0 < t \<and> t < c | _ \<Rightarrow> False)"
  shows "x \<le> k"
proof -
  obtain t where t: "py_num tot = Some t"
    using assms(1) by (auto simp: weighted_def split: option.splits)
  show ?thesis
  proof (cases "0 < t")
    case False
    then show ?thesis using assms(1,2) t by (simp add: weighted_def)
  next
    case True
    then obtain q where q: "true_divide cur tot = Inr q" and xq: "x = q * k"
      using assms(1) t by (auto simp: weighted_def split: sum.splits)
    obtain c where c: "py_num cur = Some c" and x: "x = (c / t) * k"
      using true_divide_result [OF q] t xq by auto
    have "c \<le> t" using assms(3) c t True by simp
    then have "c / t \<le> 1" using True by (simp add: divide_le_eq)
    then have "(c / t) * k \<le> 1 * k" using assms(2) by (rule mult_right_mono)
    then show ?thesis using x by simp
  qed
qed

lemma update_run_state_frame:
  assumes "update_run_state event r = (x, r')"
  shows "status r' = status r \<and> finished r' = finished r \<and> result r' = result r \<and>
         (event_type event \<noteq> ERROR \<longrightarrow> error r' = error r) \<and>
         progress r \<le> progress r'"
  using assms
  by (auto simp: update_run_state_def document_processor_progress_def
      content_generator_progress_def document_assembler_progress_def total_docs_key_def Let_def
      split: if_splits option.splits sum.splits)

lemma update_run_state_bound:
  assumes "update_run_state event r = (x, r')" and "stage_event event" and "progress r \<le> 100"
  shows "progress r' \<le> 100"
proof (cases "event_type event = PROGRESS")
  case False
  then show ?thesis using assms(1,3)
    by (auto simp: update_run_state_def split: if_splits)
next
  case True
  then have no: "\<not> overshoots (data event)" using assms(2) by (simp add: stage_event_def)
  have w: "y \<le> k" if "weighted cur tot k = Inr y" and "0 \<le> k"
    and "map_of (data event) ''current'' = Some cur" and "map_of (data event) ''total'' = Some tot"
    for cur tot k y
    using weighted_le [OF that(1,2)] no that(3,4) by (simp add: overshoots_def)
  show ?thesis
    using assms(1,3) True
    by (auto simp: update_run_state_def document_processor_progress_def
        content_generator_progress_def document_assembler_progress_def total_docs_key_def Let_def
        split: if_splits option.splits sum.splits dest!: w)
qed

lemma handler_effect:
  assumes "runs rid = Some r"
  shows "\<exists>r'. snd (handle_agent_event event now runs) rid = Some r' \<and>
           status r' = status r \<and> finished r' = finished r \<and> result r' = result r \<and>
           (event_type event \<noteq> ERROR \<longrightarrow> error r' = error r) \<and>
           progress r \<le> progress r' \<and>
           (stage_event event \<longrightarrow> progress r \<le> 100 \<longrightarrow> progress r' \<le> 100)"
proof (cases "run_id event = rid")
  case False
  then show ?thesis using assms
    by (simp add: handle_agent_event_def split: option.split prod.split)
next
  case True
  define r0 where "r0 = r\<lparr>events := events r @ [event]\<rparr>"
  obtain x r1 where u: "update_run_state event r0 = (x, r1)"
    by (cases "update_run_state event r0")
  have f: "status r1 = status r \<and> finished r1 = finished r \<and> result r1 = result r \<and>
           (event_type event \<noteq> ERROR \<longrightarrow> error r1 = error r) \<and> progress r \<le> progress r1"
    using update_run_state_frame [OF u] by (simp add: r0_def)
  have b: "stage_event event \<Longrightarrow> progress r \<le> 100 \<Longrightarrow> progress r1 \<le> 100"
    using update_run_state_bound [OF u] by (simp add: r0_def)
  show ?thesis
    using assms True u f b
    by (cases x) (simp_all add: handle_agent_event_def r0_def)
qed

subsection \<open>A run without documents\<close>

lemma zero_documents_final_result:
  "final_result (PDict [(''processed_files'', PList []), (''extracted_content'', PList [])]) c a q =
     Inl (KeyError ''total_found'')"
  by (simp add: final_result_def and_then_def)

lemma zero_documents_pipeline_failure:
  "fst (run_pipeline [handle_agent_event]
          (stg\<lparr>doc_processor_execute := DocumentProcessor_execute []\<rparr>) ags rid q m st) =
     Inl (zero_documents_failure stg q)"
proof -
  define dt where "dt = ''environmental_study_chile_dia_v1''"
  define doc_result where
    "doc_result = PDict [(''processed_files'', PList []), (''extracted_content'', PList [])]"
  define w1 where "w1 = DocumentProcessor_execute [] q m"
  define w2 where "w2 = content_generator_execute stg (PList []) q dt"
  have o1: "outcome w1 = Inr doc_result"
    by (simp add: w1_def doc_result_def DocumentProcessor_execute_def)
  have g: "getitem doc_result ''extracted_content'' = Inr (PList [])"
    by (simp add: doc_result_def)
  define st1 where "st1 = set_current_step rid (PStr ''Processing source documents'') st"
  obtain a1 st2 where e1: "execute [handle_agent_event] (doc_processor ags) rid w1 st1 = (Inr doc_result, a1, st2)"
    using execute_triple [of "[handle_agent_event]" "doc_processor ags" rid w1 st1] o1 by auto
  define st3 where "st3 = set_current_step rid (PStr ''Generating document content'') st2"
  obtain a2 st4 where e2: "execute [handle_agent_event] (content_generator ags) rid w2 st3 = (outcome w2, a2, st4)"
    using execute_triple by blast
  show ?thesis
  proof (cases "outcome w2")
    case (Inl e)
    then show ?thesis
      using e1 e2 g
      by (simp add: run_pipeline_def pipeline_failed_def zero_documents_failure_def Let_def
          w1_def [symmetric] st1_def [symmetric] st3_def [symmetric]
          dt_def [symmetric] w2_def [symmetric])
  next
    case (Inr c)
    define st5 where "st5 = set_current_step rid (PStr ''Assembling final document'') st4"
    define w3 where "w3 = doc_assembler_execute stg c q dt"
    obtain a3 st6 where e3: "execute [handle_agent_event] (doc_assembler ags) rid w3 st5 = (outcome w3, a3, st6)"
      using execute_triple by blast
    show ?thesis
    proof (cases "outcome w3")
      case (Inl e)
      then show ?thesis
        using e1 e2 e3 g Inr
        by (simp add: run_pipeline_def pipeline_failed_def zero_documents_failure_def Let_def
            w1_def [symmetric] st1_def [symmetric] st3_def [symmetric]
            dt_def [symmetric] w2_def [symmetric] st5_def [symmetric]
            w3_def [symmetric])
    next
      case (Inr a)
      have "final_result doc_result c a q = Inl (KeyError ''total_found'')"
        unfolding doc_result_def by (rule zero_documents_final_result)
      then show ?thesis
        using e1 e2 e3 g \<open>outcome w2 = Inr c\<close> Inr
        by (simp add: run_pipeline_def pipeline_failed_def zero_documents_failure_def Let_def
            w1_def [symmetric] st1_def [symmetric] st3_def [symmetric]
            dt_def [symmetric] w2_def [symmetric] st5_def [symmetric]
            w3_def [symmetric])
    qed
  qed
qed

subsection \<open>The lifetime of a run\<close>

lemma deliver_action_effect:
  assumes "fst st rid = Some r"
  shows "\<exists>r'. fst (apply_action rid st (Deliver event)) rid = Some r' \<and>
           status r' = status r \<and> finished r' = finished r \<and> result r' = result r \<and>
           (event_type event \<noteq> ERROR \<longrightarrow> error r' = error r) \<and>
           progress r \<le> progress r' \<and>
           (stage_event event \<longrightarrow> progress r \<le> 100 \<longrightarrow> progress r' \<le> 100)"
  using handler_effect [of "fst st" rid r event "clock (tick (snd st))"] assms
  by (simp add: emit_handler)

lemma cancel_action_effect:
  assumes "fst st rid = Some r"
  shows "fst (apply_action rid st Cancel) rid =
           Some (if finished r then r
                 else r\<lparr>status := CANCELED, finished := True, error := canceled_by_user\<rparr>)"
  using assms
  by (simp add: cancel_run_def get_run_status_def not_status_def to_dict_finished canceled_by_user_def)
     (simp add: to_dict_def)

lemma stage_event_not_error: "stage_event event \<Longrightarrow> event_type event \<noteq> ERROR"
  by (auto simp: stage_event_def split: if_splits)

lemma accepted_unfinished:
  assumes "fst st rid = Some r"
  shows "accepted rid st = (\<not> finished r)"
  using assms
  by (simp add: accepted_def cancel_run_def get_run_status_def not_status_def to_dict_finished)
     (simp add: to_dict_def)

lemma stored_None: "(stored v = None) = (v = PNone)"
  by (cases v) simp_all

lemma step_invariant:
  assumes "next_phase ph a = Some ph'" and "fst st rid = Some r" and "run_invariant e c n ph r"
  shows "\<exists>r'. fst (apply_action rid st a) rid = Some r' \<and>
           run_invariant (e \<or> a = Cancel \<and> accepted rid st \<and> queued rid st)
             (c \<or> a = Cancel \<and> accepted rid st) (n \<or> a = Succeed PNone) ph' r' \<and>
           progress r \<le> progress r'"
proof (cases a)
  case Begin
  then show ?thesis using assms
    by (cases ph) (auto simp: begin_run_def update_run_def run_invariant_def)
next
  case (Deliver event)
  then have se: "stage_event event" and ph': "ph' = ph" and ph: "ph \<noteq> Scheduled"
    using assms(1) by (cases ph; auto split: if_splits)+
  obtain r' where r': "fst (apply_action rid st (Deliver event)) rid = Some r'"
    "status r' = status r" "finished r' = finished r" "result r' = result r"
    "error r' = error r" "progress r \<le> progress r'" "progress r' \<le> 100"
    using deliver_action_effect [OF assms(2), of event] se stage_event_not_error [OF se] assms(3)
    by (auto simp: run_invariant_def)
  show ?thesis
    using r' assms(3) Deliver ph' by (cases ph) (auto simp: run_invariant_def)
next
  case (SetStep v)
  then show ?thesis using assms
    by (cases ph) (auto simp: set_current_step_def update_run_def run_invariant_def)
next
  case (Succeed res)
  then show ?thesis using assms
    by (cases ph)
       (auto simp: finish_succeeded_def update_run_def run_invariant_def stored_None
          split: if_splits)
next
  case (Fail x)
  then show ?thesis using assms
    by (cases ph) (auto simp: finish_failed_def update_run_def run_invariant_def split: if_splits)
next
  case Cancel
  show ?thesis
    using cancel_action_effect [OF assms(2)] accepted_unfinished [OF assms(2)] assms Cancel
    by (cases ph) (auto simp: run_invariant_def canceled_by_user_def queued_def split: if_splits)
qed

lemma trace_invariant:
  assumes "phase_after ph tr = Some ph'" and "fst st rid = Some r" and "run_invariant e c n ph r"
  shows "\<exists>r'. fst (run_of rid tr st) rid = Some r' \<and>
           run_invariant (e \<or> accepted_in (queued rid) rid st tr)
             (c \<or> accepted_in (\<lambda>x. True) rid st tr) (n \<or> Succeed PNone \<in> set tr) ph' r' \<and>
           progress r \<le> progress r'"
  using assms
proof (induction tr arbitrary: ph st r e c n)
  case Nil
  then show ?case by (simp add: run_of_def)
next
  case (Cons a tr)
  obtain ph1 where n: "next_phase ph a = Some ph1" and p: "phase_after ph1 tr = Some ph'"
    using Cons.prems(1) by (auto split: option.splits)
  define e1 where "e1 = (e \<or> a = Cancel \<and> accepted rid st \<and> queued rid st)"
  define c1 where "c1 = (c \<or> a = Cancel \<and> accepted rid st)"
  define n1 where "n1 = (n \<or> a = Succeed PNone)"
  obtain r1 where r1: "fst (apply_action rid st a) rid = Some r1"
    "run_invariant e1 c1 n1 ph1 r1" "progress r \<le> progress r1"
    using step_invariant [OF n Cons.prems(2,3)] unfolding e1_def c1_def n1_def by blast
  obtain r' where r': "fst (run_of rid tr (apply_action rid st a)) rid = Some r'"
    "run_invariant (e1 \<or> accepted_in (queued rid) rid (apply_action rid st a) tr)
       (c1 \<or> accepted_in (\<lambda>x. True) rid (apply_action rid st a) tr)
       (n1 \<or> Succeed PNone \<in> set tr) ph' r'"
    "progress r1 \<le> progress r'"
    using Cons.IH [OF p r1(1,2)] by blast
  have "(e1 \<or> accepted_in (queued rid) rid (apply_action rid st a) tr) =
          (e \<or> accepted_in (queued rid) rid st (a # tr))"
    and "(c1 \<or> accepted_in (\<lambda>x. True) rid (apply_action rid st a) tr) =
          (c \<or> accepted_in (\<lambda>x. True) rid st (a # tr))"
    and "(n1 \<or> Succeed PNone \<in> set tr) = (n \<or> Succeed PNone \<in> set (a # tr))"
    by (auto simp: e1_def c1_def n1_def)
  then show ?case using r' r1(3) by (auto simp: run_of_def)
qed

lemma phase_after_append:
  "phase_after ph (tr @ tr') =
     (case phase_after ph tr of None \<Rightarrow> None | Some ph1 \<Rightarrow> phase_after ph1 tr')"
  by (induction tr arbitrary: ph) (auto split: option.splits)

lemma run_of_append: "run_of rid (tr @ tr') st = run_of rid tr' (run_of rid tr st)"
  by (simp add: run_of_def)

lemma start_run_invariant:
  "fst (start_run rid q m st) rid = Some r \<Longrightarrow> run_invariant False False False Scheduled r"
  by (auto simp: start_run_def run_invariant_def)

lemma lifetime_invariant:
  assumes "lifetime tr"
  shows "\<exists>ph r. phase_after Scheduled tr = Some ph \<and> run_after rid q m st tr = Some r \<and>
           run_invariant (canceled_while_queued rid q m st tr) (cancel_accepted rid q m st tr)
             (Succeed PNone \<in> set tr) ph r"
proof -
  obtain ph where ph: "phase_after Scheduled tr = Some ph"
    using assms by (auto simp: lifetime_def)
  obtain r0 where r0: "fst (start_run rid q m st) rid = Some r0"
    by (simp add: start_run_def)
  show ?thesis
    using trace_invariant [OF ph r0 start_run_invariant [OF r0]] ph
    by (auto simp: run_after_def canceled_while_queued_def cancel_accepted_def)
qed

lemmas run_evaluation =
  run_after_def run_of_def start_run_def begin_run_def finish_succeeded_def finish_failed_def
  set_current_step_def update_run_def state0_def ambient0_def tick_def logger_def emit_def
  handle_agent_event_def update_run_state_def document_processor_progress_def weighted_def
  true_divide_def float_overflow_def total_docs_key_def cancel_run_def get_run_status_def
  not_status_def to_dict_def dict_get_def delivered_half_def lifetime_def stage_event_def
  overshoots_def cancel_accepted_def canceled_while_queued_def accepted_def queued_def

subsection \<open>The pipeline stays within the lifetime\<close>

text \<open>
  Every call the three stages make publishes a stage event, so \<^verbatim>\<open>_execute_run\<close> on them
  performs \<open>Begin\<close>, then deliveries of stage events and assignments to the current
  step, then \<open>Succeed\<close> or \<open>Fail\<close>: a lifetime as defined above, without a cancel. What
  the pipeline returns is the dictionary of the final result, never \<^verbatim>\<open>None\<close>.
\<close>

lemma walks_refl: "walks rid st st"
  unfolding walks_def by (rule exI [of _ "[]"]) (simp add: run_of_def)

lemma walks_trans: "walks rid st st1 \<Longrightarrow> walks rid st1 st2 \<Longrightarrow> walks rid st st2"
  unfolding walks_def
proof (elim exE conjE)
  fix tr1 tr2
  assume "list_all stage_action tr1" "st1 = run_of rid tr1 st"
    "list_all stage_action tr2" "st2 = run_of rid tr2 st1"
  then show "\<exists>tr. list_all stage_action tr \<and> st2 = run_of rid tr st"
    by (intro exI [of _ "tr1 @ tr2"]) (simp add: run_of_append)
qed

lemma walks_set_current_step: "walks rid st (set_current_step rid v st)"
  unfolding walks_def by (rule exI [of _ "[SetStep v]"]) (simp add: run_of_def)

lemma walks_emit_event:
  assumes "stage_call (Call ty msg dat err)"
  shows "walks rid st (snd (emit_event [handle_agent_event] self ty msg dat err st))"
proof (cases "case current_run_id self of None \<Rightarrow> True | Some r \<Rightarrow> r = []")
  case True
  then have "snd (emit_event [handle_agent_event] self ty msg dat err st) = st"
    by (simp add: emit_event_def split: option.splits)
  then show ?thesis by (simp add: walks_refl)
next
  case False
  then obtain r where r: "current_run_id self = Some r" "r \<noteq> []"
    by (auto split: option.splits)
  define event where "event = \<lparr>run_id = r, agent_id = self_agent_id self, event_type = ty,
      timestamp = clock (snd st), message = msg, data = (case dat of None \<Rightarrow> [] | Some d \<Rightarrow> d),
      event_error = err\<rparr>"
  have se: "stage_event event"
    using assms by (auto simp: stage_call_def stage_event_def event_def split: if_splits)
  have "snd (emit_event [handle_agent_event] self ty msg dat err st) = run_of rid [Deliver event] st"
    using r by (simp add: emit_event_def run_of_def event_def Let_def)
  then show ?thesis
    unfolding walks_def using se by (intro exI [of _ "[Deliver event]"]) simp
qed

lemma walks_perform:
  assumes "list_all stage_call cs"
  shows "walks rid st (snd (perform [handle_agent_event] self cs st))"
  using assms
proof (induction cs arbitrary: st)
  case Nil
  then show ?case by (simp add: walks_refl)
next
  case (Cons c cs)
  obtain ty msg dat err where c: "c = Call ty msg dat err" by (cases c)
  obtain st' where e: "emit_event [handle_agent_event] self ty msg dat err st = (None, st')"
    using emit_event_result by blast
  have "walks rid st st'"
    using walks_emit_event [of ty msg dat err rid st self] Cons.prems e c by simp
  moreover have "walks rid st' (snd (perform [handle_agent_event] self cs st'))"
    using Cons.IH Cons.prems by simp
  ultimately show ?case unfolding c using e by (simp add: walks_trans)
qed

lemma walks_execute:
  assumes "list_all stage_call (calls w)"
  shows "walks rid st (snd (snd (execute [handle_agent_event] self rid' w st)))"
proof -
  define self1 where "self1 = self\<lparr>current_run_id := Some rid', is_running := True\<rparr>"
  define m1 where "m1 = ''Starting '' @ self_agent_id self1"
  define m2 where "m2 = ''Failed '' @ self_agent_id self1"
  define m3 where "m3 = ''Completed '' @ self_agent_id self1"
  obtain st1 where s1: "emit_event [handle_agent_event] self1 STARTED m1 None None st = (None, st1)"
    using emit_event_result by blast
  have w1: "walks rid st st1"
    using walks_emit_event [of STARTED m1 None None rid st self1] s1 by (simp add: stage_call_def)
  obtain st2 where s2: "perform [handle_agent_event] self1 (calls w) st1 = (None, st2)"
    using perform_result by blast
  have w2: "walks rid st st2"
    using walks_perform [OF assms, of rid st1 self1] s2 w1 by (auto intro: walks_trans)
  show ?thesis
  proof (cases "outcome w")
    case (Inl e)
    obtain st3 where s3: "emit_event [handle_agent_event] self1 FAILED m2 None (Some (str_exn e)) st2 = (None, st3)"
      using emit_event_result by blast
    have "walks rid st st3"
      using walks_emit_event [of FAILED m2 None "Some (str_exn e)" rid st2 self1] s3 w2
      by (auto simp: stage_call_def intro: walks_trans)
    then show ?thesis
      unfolding execute_def Let_def self1_def [symmetric] m1_def [symmetric] m2_def [symmetric]
        m3_def [symmetric]
      using s1 s2 s3 Inl by simp
  next
    case (Inr res)
    obtain st3 where s3: "emit_event [handle_agent_event] self1 COMPLETED m3 (Some [(''result'', py_str res)]) None st2 = (None, st3)"
      using emit_event_result by blast
    have "walks rid st st3"
      using walks_emit_event [of COMPLETED m3 "Some [(''result'', py_str res)]" None rid st2 self1] s3 w2
      by (auto simp: stage_call_def intro: walks_trans)
    then show ?thesis
      unfolding execute_def Let_def self1_def [symmetric] m1_def [symmetric] m2_def [symmetric]
        m3_def [symmetric]
      using s1 s2 s3 Inr by simp
  qed
qed

lemma walks_then_step:
  "walks rid st0 st \<Longrightarrow> walks rid st0 (set_current_step rid v st)"
  using walks_set_current_step walks_trans by blast

lemma walks_then_execute:
  assumes "walks rid st0 st" and "list_all stage_call (calls w)"
    and "execute [handle_agent_event] self rid' w st = (r, a, st')"
  shows "walks rid st0 st'"
  using walks_execute [OF assms(2), of rid st self rid'] assms(1,3) walks_trans by fastforce

lemma walks_run_pipeline:
  assumes "well_behaved stg"
  shows "walks rid st (snd (snd (run_pipeline [handle_agent_event] stg ags rid q m st)))"
proof -
  define dt where "dt = ''environmental_study_chile_dia_v1''"
  define w1 where "w1 = doc_processor_execute stg q m"
  have c1: "list_all stage_call (calls w1)"
    using assms by (simp add: well_behaved_def w1_def)
  define st1 where "st1 = set_current_step rid (PStr ''Processing source documents'') st"
  obtain r1 a1 st2 where e1: "execute [handle_agent_event] (doc_processor ags) rid w1 st1 = (r1, a1, st2)"
    by (metis prod_cases3)
  have k2: "walks rid st st2"
    using walks_then_execute [OF _ c1 e1] walks_set_current_step by (simp add: st1_def)
  show ?thesis
  proof (cases r1)
    case (Inl e)
    then show ?thesis
      using e1 k2
      by (simp add: run_pipeline_def pipeline_failed_def Let_def w1_def [symmetric]
          st1_def [symmetric] walks_then_step)
  next
    case doc: (Inr doc_result)
    define st3 where "st3 = set_current_step rid (PStr ''Generating document content'') st2"
    have k3: "walks rid st st3"
      using k2 by (simp add: st3_def walks_then_step)
    show ?thesis
    proof (cases "getitem doc_result ''extracted_content''")
      case (Inl e)
      then show ?thesis
        using e1 k3 doc
        by (simp add: run_pipeline_def pipeline_failed_def Let_def w1_def [symmetric]
            st1_def [symmetric] st3_def [symmetric] walks_then_step)
    next
      case ext: (Inr extracted_content)
      define w2 where "w2 = content_generator_execute stg extracted_content q dt"
      have c2: "list_all stage_call (calls w2)"
        using assms by (simp add: well_behaved_def w2_def)
      obtain r2 a2 st4 where e2: "execute [handle_agent_event] (content_generator ags) rid w2 st3 = (r2, a2, st4)"
        by (metis prod_cases3)
      have k4: "walks rid st st4"
        using walks_then_execute [OF k3 c2 e2] .
      show ?thesis
      proof (cases r2)
        case (Inl e)
        then show ?thesis
          using e1 e2 k4 doc ext
          by (simp add: run_pipeline_def pipeline_failed_def Let_def w1_def [symmetric]
              st1_def [symmetric] st3_def [symmetric] dt_def [symmetric] w2_def [symmetric]
              walks_then_step)
      next
        case gen: (Inr content_result)
        define st5 where "st5 = set_current_step rid (PStr ''Assembling final document'') st4"
        have k5: "walks rid st st5"
          using k4 by (simp add: st5_def walks_then_step)
        define w3 where "w3 = doc_assembler_execute stg content_result q dt"
        have c3: "list_all stage_call (calls w3)"
          using assms by (simp add: well_behaved_def w3_def)
        obtain r3 a3 st6 where e3: "execute [handle_agent_event] (doc_assembler ags) rid w3 st5 = (r3, a3, st6)"
          by (metis prod_cases3)
        have k6: "walks rid st st6"
          using walks_then_execute [OF k5 c3 e3] .
        show ?thesis
          using e1 e2 e3 k6 doc ext gen
          by (simp add: run_pipeline_def pipeline_failed_def Let_def w1_def [symmetric]
              st1_def [symmetric] st3_def [symmetric] dt_def [symmetric] w2_def [symmetric]
              st5_def [symmetric] w3_def [symmetric] walks_then_step split: sum.split)
      qed
    qed
  qed
qed

lemma stage_call_emit_step: "stage_call (emit_step n msg)"
  by (simp add: stage_call_def emit_step_def)

lemma stage_call_emit_warning: "stage_call (emit_warning msg dat)"
  by (simp add: stage_call_def emit_warning_def)

lemma stage_call_emit_progress: "c \<le> t \<Longrightarrow> stage_call (emit_progress c t msg)"
  by (simp add: stage_call_def emit_progress_def overshoots_def Let_def)

lemma stage_call_total_docs: "stage_call (Call PROGRESS msg (Some [(''total_docs'', v)]) None)"
  by (simp add: stage_call_def overshoots_def)

lemma process_docs_calls:
  "int i + int (length fs) \<le> n \<Longrightarrow> list_all stage_call (fst (process_docs i n fs))"
proof (induction fs arbitrary: i)
  case Nil
  then show ?case by simp
next
  case (Cons f fs)
  have "list_all stage_call (fst (process_docs (Suc i) n fs))"
    using Cons.IH [of "Suc i"] Cons.prems by simp
  moreover have "stage_call (emit_progress (int i) n (''Processing '' @ doc_name f))"
    using Cons.prems by (intro stage_call_emit_progress) simp
  ultimately show ?case
    by (cases "process_docs (Suc i) n fs")
       (simp add: Let_def stage_call_emit_warning split: extraction.split)
qed

lemma DocumentProcessor_calls: "list_all stage_call (calls (DocumentProcessor_execute found q m))"
proof (cases "found = []")
  case True
  then show ?thesis
    by (simp add: DocumentProcessor_execute_def stage_call_emit_step stage_call_emit_warning)
next
  case False
  define doc_files where "doc_files = (if m > 0 then take (nat m) found else found)"
  have "list_all stage_call (fst (process_docs 0 (int (length doc_files)) doc_files))"
    by (rule process_docs_calls) simp
  then show ?thesis
    using False
    by (cases "process_docs 0 (int (length doc_files)) doc_files")
       (simp add: DocumentProcessor_execute_def Let_def doc_files_def [symmetric]
         stage_call_emit_step stage_call_total_docs stage_call_emit_progress)
qed

lemma generate_sections_calls:
  "int i + int (length secs) \<le> n \<Longrightarrow> list_all stage_call (fst (generate_sections g i n secs))"
proof (induction secs arbitrary: i)
  case Nil
  then show ?case by simp
next
  case (Cons s secs)
  obtain section_id section_title where s: "s = (section_id, section_title)" by (cases s)
  have "list_all stage_call (fst (generate_sections g (Suc i) n secs))"
    using Cons.IH [of "Suc i"] Cons.prems by simp
  moreover have "stage_call (emit_progress (int i) n (''Generating '' @ section_title))"
    using Cons.prems by (intro stage_call_emit_progress) simp
  ultimately show ?case
    unfolding s
    by (cases "generate_sections g (Suc i) n secs")
       (simp add: Let_def stage_call_emit_warning split: generation.split option.split)
qed

lemma ContentGenerator_calls:
  "list_all stage_call (calls (ContentGenerator_execute g x q d))"
proof -
  have "list_all stage_call (fst (generate_sections g 0 (int (length sections)) sections))"
    by (rule generate_sections_calls) simp
  then show ?thesis
    by (cases "generate_sections g 0 (int (length sections)) sections")
       (simp add: ContentGenerator_execute_def Let_def stage_call_emit_step
         stage_call_emit_warning stage_call_emit_progress split: option.split)
qed

lemma DocumentAssembler_calls:
  "list_all stage_call (calls (DocumentAssembler_execute a x q d))"
  by (simp add: DocumentAssembler_execute_def Let_def stage_call_emit_step
      stage_call_emit_progress split: pyval.split sum.split)

lemma bess_stages_well_behaved: "well_behaved (bess_stages found g a)"
  by (simp add: well_behaved_def bess_stages_def DocumentProcessor_calls ContentGenerator_calls
      DocumentAssembler_calls)

lemma stage_trace_phase:
  "list_all stage_action tr \<Longrightarrow> phase_after InPipeline tr = Some InPipeline"
proof (induction tr)
  case Nil
  then show ?case by simp
next
  case (Cons a tr)
  then show ?case by (cases a) simp_all
qed

lemma stage_trace_no_cancel: "list_all stage_action tr \<Longrightarrow> Cancel \<notin> set tr"
  by (induction tr) auto

lemma stage_trace_no_succeed: "list_all stage_action tr \<Longrightarrow> Succeed res \<notin> set tr"
  by (induction tr) auto

lemma final_result_not_None: "final_result d c a q = Inr res \<Longrightarrow> res \<noteq> PNone"
  by (auto simp: final_result_def and_then_def split: sum.splits)

lemma run_pipeline_result_not_None:
  assumes "fst (run_pipeline subs stg ags rid q m st) = Inr res"
  shows "res \<noteq> PNone"
  using assms final_result_not_None
  by (auto simp: run_pipeline_def pipeline_failed_def Let_def split: prod.splits sum.splits)

lemma execute_run_walks_a_lifetime:
  assumes "well_behaved stg" and "fst st rid \<noteq> None"
  shows "\<exists>tr. lifetime tr \<and> phase_after Scheduled tr = Some Returned \<and> Cancel \<notin> set tr \<and>
              Succeed PNone \<notin> set tr \<and>
              snd (snd (execute_run [handle_agent_event] stg ags rid st)) = run_of rid tr st"
proof -
  obtain r0 where r0: "fst st rid = Some r0" using assms(2) by auto
  define P where "P = run_pipeline [handle_agent_event] stg ags rid (query r0) (max_docs r0) (begin_run rid st)"
  obtain tr where tr: "list_all stage_action tr" "snd (snd P) = run_of rid tr (begin_run rid st)"
    using walks_run_pipeline [OF assms(1), of rid "begin_run rid st" ags "query r0" "max_docs r0"]
    by (auto simp: walks_def P_def)
  obtain r a st' where P: "P = (r, a, st')" by (metis prod_cases3)
  define fin where "fin = (case r of Inl e \<Rightarrow> Fail e | Inr res \<Rightarrow> Succeed res)"
  have run: "snd (snd (execute_run [handle_agent_event] stg ags rid st)) = apply_action rid st' fin"
    using r0 P by (simp add: execute_run_def P_def [symmetric] fin_def split: sum.split)
  have fin: "fin \<noteq> Succeed PNone"
    using run_pipeline_result_not_None [of "[handle_agent_event]" stg ags rid "query r0" "max_docs r0"
        "begin_run rid st"] P
    by (auto simp: fin_def P_def [symmetric] split: sum.split)
  have "run_of rid (Begin # tr @ [fin]) st = apply_action rid st' fin"
    using tr(2) P by (simp add: run_of_def)
  moreover have "phase_after Scheduled (Begin # tr @ [fin]) = Some Returned"
    using stage_trace_phase [OF tr(1)]
    by (simp add: phase_after_append fin_def split: sum.split)
  moreover have "Cancel \<notin> set (Begin # tr @ [fin])"
    using stage_trace_no_cancel [OF tr(1)] by (simp add: fin_def split: sum.split)
  moreover have "Succeed PNone \<notin> set (Begin # tr @ [fin])"
    using stage_trace_no_succeed [OF tr(1)] fin by auto
  ultimately show ?thesis
    using run by (intro exI [of _ "Begin # tr @ [fin]"]) (simp add: lifetime_def)
qed

section \<open>The claims\<close>

text \<open>
  C1, as amended. At every point of a run's lifetime: the result is set exactly when the
  status is Succeeded and what the pipeline returned is not \<^verbatim>\<open>None\<close>; the error is set
  exactly when the status is Failed or a cancel request for the run has been accepted,
  and in the second case, unless the status is Failed, it is "Canceled by user"; a
  Canceled run has had a cancel request accepted; and while the run is Queued or
  Running neither result nor error is set, unless a cancel request was accepted while
  the run was Queued. A cancel request that the route rejects changes nothing of this.
  The events delivered in a lifetime are those the stages publish, none of which has
  type \<^verbatim>\<open>ERROR\<close>, the one type for which the subscriber writes the error field.
\<close>

theorem result_and_error_by_status:
  assumes "lifetime tr"
  shows "case run_after rid q m st tr of
           None \<Rightarrow> False
         | Some r \<Rightarrow>
             (result r \<noteq> None) = (status r = SUCCEEDED \<and> Succeed PNone \<notin> set tr) \<and>
             (error r \<noteq> None) = (status r = RUN_FAILED \<or> cancel_accepted rid q m st tr) \<and>
             (cancel_accepted rid q m st tr \<and> status r \<noteq> RUN_FAILED \<longrightarrow>
                error r = Some ''Canceled by user'') \<and>
             (status r = CANCELED \<longrightarrow> cancel_accepted rid q m st tr) \<and>
             (\<not> canceled_while_queued rid q m st tr \<and> (status r = QUEUED \<or> status r = RUNNING) \<longrightarrow>
                result r = None \<and> error r = None)"
proof -
  obtain ph r where "run_after rid q m st tr = Some r"
    "run_invariant (canceled_while_queued rid q m st tr) (cancel_accepted rid q m st tr)
       (Succeed PNone \<in> set tr) ph r"
    using lifetime_invariant [OF assms] by blast
  then show ?thesis
    by (cases ph) (auto simp: run_invariant_def canceled_by_user_def split: if_splits)
qed

theorem result_and_error_by_status_witness:
  "lifetime [Begin, Deliver delivered_half, Succeed (PDict [(''query'', PStr ''BESS'')]), Cancel] \<and>
   \<not> cancel_accepted ''r1'' ''BESS'' 10 state0
       [Begin, Deliver delivered_half, Succeed (PDict [(''query'', PStr ''BESS'')]), Cancel] \<and>
   map_option status (run_after ''r1'' ''BESS'' 10 state0
     [Begin, Deliver delivered_half, Succeed (PDict [(''query'', PStr ''BESS'')]), Cancel]) =
     Some SUCCEEDED \<and>
   map_option error (run_after ''r1'' ''BESS'' 10 state0
     [Begin, Deliver delivered_half, Succeed (PDict [(''query'', PStr ''BESS'')]), Cancel]) =
     Some None \<and>
   map_option result (run_after ''r1'' ''BESS'' 10 state0
     [Begin, Deliver delivered_half, Succeed (PDict [(''query'', PStr ''BESS'')]), Cancel]) =
     Some (Some (PDict [(''query'', PStr ''BESS'')]))"
  using result_and_error_by_status
    [of "[Begin, Deliver delivered_half, Succeed (PDict [(''query'', PStr ''BESS'')]), Cancel]"
      "''r1''" "''BESS''" 10 state0]
  by (simp add: run_evaluation)

text \<open>
  C1 as stated fails for a canceled run: after a cancel request the run is finished and
  its error is set, while its status is Canceled, not Failed.
\<close>

theorem canceled_run_error_counterexample:
  "lifetime [Begin, Cancel] \<and>
   map_option finished (run_after ''r1'' ''BESS'' 10 state0 [Begin, Cancel]) = Some True \<and>
   map_option status (run_after ''r1'' ''BESS'' 10 state0 [Begin, Cancel]) = Some CANCELED \<and>
   map_option error (run_after ''r1'' ''BESS'' 10 state0 [Begin, Cancel]) = Some (Some ''Canceled by user'')"
  by (simp add: run_evaluation)

text \<open>
  C2, on the code. When the document stage finds no file it emits a step event and a
  Warning and returns a result with an empty extracted content, without raising. That
  result lacks the keys \<open>total_found\<close> and \<open>total_processed\<close> which the pipeline reads
  when it builds the final result: whatever the later stages do, \<^verbatim>\<open>_execute_run\<close> ends
  with the run Failed and finished, never Succeeded, and the recorded error is the one
  a later stage raised or else the text of \<^verbatim>\<open>KeyError('total_found')\<close>.
\<close>

theorem zero_documents_run_fails:
  assumes "doc_processor_execute stg = DocumentProcessor_execute []" and "fst st rid = Some r0"
  shows "outcome (doc_processor_execute stg q m) =
           Inr (PDict [(''processed_files'', PList []), (''extracted_content'', PList [])]) \<and>
         map call_type (calls (doc_processor_execute stg q m)) = [STEP_STARTED, WARNING] \<and>
         fst (execute_run [handle_agent_event] stg ags rid st) = None \<and>
         map_option status (fst (snd (snd (execute_run [handle_agent_event] stg ags rid st))) rid) =
           Some RUN_FAILED \<and>
         map_option finished (fst (snd (snd (execute_run [handle_agent_event] stg ags rid st))) rid) =
           Some True \<and>
         map_option error (fst (snd (snd (execute_run [handle_agent_event] stg ags rid st))) rid) =
           Some (Some (str_exn (zero_documents_failure stg (query r0))))"
proof -
  define st1 where "st1 = begin_run rid st"
  define P where "P = run_pipeline [handle_agent_event] stg ags rid (query r0) (max_docs r0) st1"
  define e where "e = zero_documents_failure stg (query r0)"
  have stg: "stg\<lparr>doc_processor_execute := DocumentProcessor_execute []\<rparr> = stg"
    using assms(1) by simp
  have e: "fst P = Inl e"
    unfolding P_def e_def
    using zero_documents_pipeline_failure [of stg ags rid "query r0" "max_docs r0" st1]
    by (simp only: stg)
  have "registered rid (snd (snd P))"
    unfolding P_def using run_pipeline_registered [of rid stg ags rid "query r0" "max_docs r0" st1]
      begin_run_registered [of rid rid st] assms(2)
    by (simp add: registered_def st1_def)
  then obtain r where r: "fst (snd (snd P)) rid = Some r"
    by (auto simp: registered_def)
  have fin: "fst (finish_failed rid e (snd (snd P))) rid =
      Some (r\<lparr>status := RUN_FAILED, finished := True, error := Some (str_exn e),
             updated_at := clock (logger (LogRunFailed rid e) (snd (snd (snd P))))\<rparr>)"
    using finish_failed_status [OF r] .
  have run: "execute_run [handle_agent_event] stg ags rid st =
      (None, fst (snd P), finish_failed rid e (snd (snd P)))"
    using assms(2) e
    by (cases P) (auto simp: execute_run_def P_def [symmetric] st1_def [symmetric])
  show ?thesis
    using run fin assms(1)
    by (simp add: DocumentProcessor_execute_def emit_step_def emit_warning_def e_def)
qed

theorem zero_documents_run_fails_witness:
  "map_option status
     (fst (snd (snd (execute_run [handle_agent_event] (bess_stages [] generator0 assembler0)
        bess_agents ''r1'' (start_run ''r1'' ''BESS'' 10 state0)))) ''r1'') = Some RUN_FAILED \<and>
   map_option error
     (fst (snd (snd (execute_run [handle_agent_event] (bess_stages [] generator0 assembler0)
        bess_agents ''r1'' (start_run ''r1'' ''BESS'' 10 state0)))) ''r1'') =
     Some (Some [CHR 0x27, CHR ''t'', CHR ''o'', CHR ''t'', CHR ''a'', CHR ''l'', CHR ''_'',
                 CHR ''f'', CHR ''o'', CHR ''u'', CHR ''n'', CHR ''d'', CHR 0x27])"
  using zero_documents_run_fails [of "bess_stages [] generator0 assembler0"
      "start_run ''r1'' ''BESS'' 10 state0" "''r1''" _ "''BESS''" 10 bess_agents]
  by (simp add: start_run_def state0_def bess_stages_def zero_documents_failure_def
      ContentGenerator_execute_def DocumentAssembler_execute_def generate_basic_template_def
      generator0_def assembler0_def)

text \<open>
  C3. Over the lifetime of a run, progress never decreases: between any point of the
  lifetime and any later one, through deliveries to the subscriber, cancel requests and
  the end of \<^verbatim>\<open>_execute_run\<close>, the later value is at least the earlier one.
\<close>

theorem progress_never_decreases:
  assumes "lifetime (tr @ tr')"
  shows "case (run_after rid q m st tr, run_after rid q m st (tr @ tr')) of
           (Some r, Some r') \<Rightarrow> progress r \<le> progress r'
         | _ \<Rightarrow> False"
proof -
  obtain ph1 ph2 where p1: "phase_after Scheduled tr = Some ph1" and p2: "phase_after ph1 tr' = Some ph2"
    using assms by (auto simp: lifetime_def phase_after_append split: option.splits)
  have "lifetime tr" using p1 by (simp add: lifetime_def)
  then obtain ph r where r: "phase_after Scheduled tr = Some ph" "run_after rid q m st tr = Some r"
    "run_invariant (canceled_while_queued rid q m st tr) (cancel_accepted rid q m st tr)
       (Succeed PNone \<in> set tr) ph r"
    using lifetime_invariant by blast
  have ph: "ph = ph1" using r(1) p1 by simp
  obtain r' where "fst (run_of rid tr' (run_of rid tr (start_run rid q m st))) rid = Some r'"
    "progress r \<le> progress r'"
    using trace_invariant [OF p2, of "run_of rid tr (start_run rid q m st)" rid r
        "canceled_while_queued rid q m st tr" "cancel_accepted rid q m st tr" "Succeed PNone \<in> set tr"]
      r(2,3) ph
    by (auto simp: run_after_def)
  then show ?thesis using r(2) by (simp add: run_after_def run_of_append)
qed

theorem progress_never_decreases_witness:
  "lifetime ([Begin, Deliver delivered_half] @ [Succeed PNone]) \<and>
   map_option progress (run_after ''r1'' ''BESS'' 10 state0 [Begin, Deliver delivered_half]) = Some 20 \<and>
   map_option progress (run_after ''r1'' ''BESS'' 10 state0 ([Begin, Deliver delivered_half] @ [Succeed PNone])) = Some 100"
  using progress_never_decreases [of "[Begin, Deliver delivered_half]" "[Succeed PNone]" "''r1''" "''BESS''" 10 state0]
  by (simp add: run_evaluation)

text \<open>
  C4, as amended. A Progress event with numeric \<open>current\<close> and \<open>total\<close> from one of the
  three registered stages, for a registered run, whose payload float arithmetic can
  carry (\<open>fits_float\<close>: for a positive total the fraction \<open>current / total\<close> and its
  product with \<open>hi - lo\<close> are within the range of a float, and so are \<open>current\<close> and
  \<open>total\<close> unless both are integers), sets the run's progress to the maximum of its
  old value and \<open>lo + (current / total) * (hi - lo)\<close>, the fraction being 0 when
  \<open>total \<le> 0\<close>, with the ranges [0, 40], [40, 90] and [90, 100]; the subscriber
  returns without raising. The value is that of exact arithmetic, which the floats of
  the code follow up to the rounding of each operation.
\<close>

theorem progress_event_mapping:
  assumes "runs (run_id event) = Some run_state"
    and "event_type event = PROGRESS"
    and "map_of (data event) ''current'' = Some cur" and "py_num cur = Some c"
    and "map_of (data event) ''total'' = Some tot" and "py_num tot = Some t"
    and "spec_stage_range (agent_id event) = Some rng"
    and "fits_float cur tot (snd rng - fst rng)"
  shows "fst (handle_agent_event event now runs) = None \<and>
         map_option progress (snd (handle_agent_event event now runs) (run_id event)) =
           Some (max (progress run_state) (spec_mapped rng c t))"
proof -
  have w: "\<And>k. weighted cur tot k = Inr (if t > 0 then (c / t) * k else 0)"
    using assms(4,6,8) by (rule weighted_numeric)
  consider (doc) "agent_id event = ''document_processor''" "rng = (0, 40)"
    | (gen) "agent_id event = ''content_generator''" "rng = (40, 90)"
    | (asm) "agent_id event = ''document_assembler''" "rng = (90, 100)"
    using assms(7) by (auto simp: spec_stage_range_def split: if_splits)
  then show ?thesis
  proof cases
    case doc
    then show ?thesis
      using assms(1,2,3,5) w
      by (simp add: handle_agent_event_def update_run_state_def document_processor_progress_def
          total_docs_key_def spec_mapped_def Let_def split: option.split)
  next
    case gen
    then show ?thesis
      using assms(1,2,3,5) w
      by (simp add: handle_agent_event_def update_run_state_def content_generator_progress_def
          spec_mapped_def)
  next
    case asm
    then show ?thesis
      using assms(1,2,3,5) w
      by (simp add: handle_agent_event_def update_run_state_def document_assembler_progress_def
          spec_mapped_def)
  qed
qed

theorem progress_event_mapping_witness:
  "spec_stage_range ''content_generator'' = Some (40, 90) \<and>
   fits_float (PInt 1) (PInt 2) (90 - 40) \<and>
   fst (handle_agent_event (progress_event ''content_generator'' 1 2) 9 registry1) = None \<and>
   map_option progress
     (snd (handle_agent_event (progress_event ''content_generator'' 1 2) 9 registry1) ''r1'') =
     Some 65"
  using progress_event_mapping [of registry1 "progress_event ''content_generator'' 1 2" run1
      "PInt 1" 1 "PInt 2" 2 "(40, 90)" 9]
  by (simp add: registry1_def progress_event_def run1_def spec_stage_range_def spec_mapped_def
      fits_float_def float_overflow_def)

text \<open>
  C4 as stated fails for numeric payloads beyond the range of a float: with the
  integers \<open>current = 2 * 10^308\<close> and \<open>total = 1\<close> the division raises
  \<^verbatim>\<open>OverflowError\<close>, the subscriber raises with it, and the run keeps its progress, 20, and
  its \<open>updated_at\<close>, where the mapping of the claim gives \<open>40 + 10^310\<close>.
\<close>

theorem progress_overflow_counterexample:
  "fst (handle_agent_event (progress_event ''content_generator'' (2 * 10 ^ 308) 1) 9 registry1) =
     Some (OverflowError ''integer division result too large for a float'') \<and>
   map_option progress
     (snd (handle_agent_event (progress_event ''content_generator'' (2 * 10 ^ 308) 1) 9 registry1) ''r1'') =
     Some 20 \<and>
   map_option updated_at
     (snd (handle_agent_event (progress_event ''content_generator'' (2 * 10 ^ 308) 1) 9 registry1) ''r1'') =
     Some 1 \<and>
   max (progress run1) (spec_mapped (40, 90) (2 * 10 ^ 308) 1) = 40 + 10 ^ 310"
  by (simp add: handle_agent_event_def update_run_state_def content_generator_progress_def
      weighted_def true_divide_def float_overflow_def registry1_def progress_event_def run1_def
      spec_mapped_def)

text \<open>
  C5, on the code. At every point of a run's lifetime, \<open>finished\<close> is true exactly when
  the status is Succeeded, Failed or Canceled, or else the status is Running and a cancel
  request was accepted while the run was Queued: the entry of \<^verbatim>\<open>_execute_run\<close> sets the
  status to Running without looking at \<open>finished\<close>, which the accepted request has set.
  So the flag and the status agree at every point of every lifetime in which no cancel
  request is accepted while the run is Queued, and disagree from \<open>Begin\<close> to the end of
  \<^verbatim>\<open>_execute_run\<close> in the others.
\<close>

theorem finished_and_status:
  assumes "lifetime tr"
  shows "case run_after rid q m st tr of
           None \<Rightarrow> False
         | Some r \<Rightarrow>
             finished r =
               (status r = SUCCEEDED \<or> status r = RUN_FAILED \<or> status r = CANCELED \<or>
                status r = RUNNING \<and> canceled_while_queued rid q m st tr)"
proof -
  obtain ph r where "run_after rid q m st tr = Some r"
    "run_invariant (canceled_while_queued rid q m st tr) (cancel_accepted rid q m st tr)
       (Succeed PNone \<in> set tr) ph r"
    using lifetime_invariant [OF assms] by blast
  then show ?thesis
    by (cases ph) (auto simp: run_invariant_def split: if_splits)
qed

theorem finished_and_status_witness:
  "lifetime [Cancel, Begin] \<and>
   canceled_while_queued ''r1'' ''BESS'' 10 state0 [Cancel, Begin] \<and>
   map_option finished (run_after ''r1'' ''BESS'' 10 state0 [Cancel, Begin]) = Some True \<and>
   map_option status (run_after ''r1'' ''BESS'' 10 state0 [Cancel, Begin]) = Some RUNNING"
  using finished_and_status [of "[Cancel, Begin]" "''r1''" "''BESS''" 10 state0]
  by (simp add: run_evaluation)

text \<open>
  C6, as amended. An invocation of \<open>execute\<close> with a non-empty run id, whose steps run
  with no step of another invocation on the same agent object between them
  (\<open>invocation\<close>: the entry, the stage's calls, the end), emits one Started event, then
  the events of the stage's own calls, then one terminal event: Completed when the
  work returns, Failed when it raises; and it hands the work's result or exception on
  to its caller. So, for a stage whose own calls emit no Started, Completed or Failed
  event, exactly one Started and exactly one terminal event are emitted, never both
  Completed and Failed. Nothing emitted before is lost, whatever the agent object held
  when the invocation began. Invocations that overlap on one agent object are not
  covered.
\<close>

theorem execute_lifecycle_events:
  assumes "rid \<noteq> []"
  shows "execute subs self rid w st = (outcome w, run_steps subs (self, st) (invocation rid w)) \<and>
         fst (execute subs self rid w st) = outcome w \<and>
         kinds (snd (snd (execute subs self rid w st))) =
           kinds st @ STARTED # map call_type (calls w) @ [terminal_kind (outcome w)] \<and>
         ((\<forall>c \<in> set (calls w). call_type c \<notin> {STARTED, COMPLETED, FAILED}) \<longrightarrow>
            count_list (since st (snd (snd (execute subs self rid w st)))) STARTED = 1 \<and>
            count_list (since st (snd (snd (execute subs self rid w st)))) COMPLETED =
              (case outcome w of Inl e \<Rightarrow> 0 | Inr res \<Rightarrow> 1) \<and>
            count_list (since st (snd (snd (execute subs self rid w st)))) FAILED =
              (case outcome w of Inl e \<Rightarrow> 1 | Inr res \<Rightarrow> 0))"
proof -
  have none: "count_list (map call_type (calls w)) k = 0"
    if "\<forall>c \<in> set (calls w). call_type c \<notin> {STARTED, COMPLETED, FAILED}"
      and "k \<in> {STARTED, COMPLETED, FAILED}" for k
    using that by (auto simp: count_list_0_iff)
  have "fst (execute subs self rid w st) = outcome w \<and>
         kinds (snd (snd (execute subs self rid w st))) =
           kinds st @ STARTED # map call_type (calls w) @ [terminal_kind (outcome w)] \<and>
         ((\<forall>c \<in> set (calls w). call_type c \<notin> {STARTED, COMPLETED, FAILED}) \<longrightarrow>
            count_list (since st (snd (snd (execute subs self rid w st)))) STARTED = 1 \<and>
            count_list (since st (snd (snd (execute subs self rid w st)))) COMPLETED =
              (case outcome w of Inl e \<Rightarrow> 0 | Inr res \<Rightarrow> 1) \<and>
            count_list (since st (snd (snd (execute subs self rid w st)))) FAILED =
              (case outcome w of Inl e \<Rightarrow> 1 | Inr res \<Rightarrow> 0))"
    using execute_kinds [OF assms(1), of subs self w st] none
    by (simp add: since_def terminal_kind_def split: sum.split)
  then show ?thesis
    using execute_steps [of subs self rid w st] by blast
qed

theorem execute_lifecycle_events_witness:
  "count_list (since ((0::nat), ambient0)
       (snd (snd (execute [counting] agent0 ''r1''
          \<lparr>calls = [emit_warning ''w'' None], outcome = Inl (ValueError ''no input'')\<rparr>
          (0, ambient0)))))
     FAILED = 1 \<and>
   fst (execute [counting] agent0 ''r1''
          \<lparr>calls = [emit_warning ''w'' None], outcome = Inl (ValueError ''no input'')\<rparr>
          ((0::nat), ambient0)) = Inl (ValueError ''no input'')"
  using execute_lifecycle_events [where rid = "''r1''" and subs = "[counting]" and self = agent0
      and w = "\<lparr>calls = [emit_warning ''w'' None], outcome = Inl (ValueError ''no input'')\<rparr>"
      and st = "((0::nat), ambient0)", THEN conjunct2]
  by (simp add: emit_warning_def)

text \<open>
  C6 as stated fails for the empty run id: \<open>emit_event\<close> treats it as no run at all,
  and the invocation emits nothing.
\<close>

theorem execute_empty_run_id_counterexample:
  "kinds (snd (snd (execute [counting] agent0 []
      \<lparr>calls = [], outcome = Inr PNone\<rparr> ((0::nat), ambient0)))) = [] \<and>
   count_list (since ((0::nat), ambient0) (snd (snd (execute [counting] agent0 []
      \<lparr>calls = [], outcome = Inr PNone\<rparr> ((0::nat), ambient0))))) STARTED = 0"
  by (simp add: execute_def emit_event_def agent0_def ambient0_def kinds_def idle_def since_def)

text \<open>
  C7. Publishing an event calls every subscriber, in subscription order, with that
  event: spies around arbitrary subscribers, some of which may raise, record
  \<open>(0, event), (1, event), \<dots>\<close>. No exception leaves \<open>emit\<close>, and the state it leaves
  is the one reached by running each subscriber in turn, a raised exception adding only
  a line to the log.
\<close>

theorem emit_reaches_every_subscriber:
  "fst (emit (spied cbs) event ((s, []), y)) = None \<and>
   snd (fst (snd (emit (spied cbs) event ((s, []), y)))) = map (\<lambda>i. (i, event)) [0..<length cbs] \<and>
   emit subs event st = (None, foldl (after_callback event) (fst st, logger (LogInfo event) (snd st)) subs)"
proof -
  have "emit subs event st = (None, foldl (after_callback event) (fst st, logger (LogInfo event) (snd st)) subs)"
    using deliver_never_raises [of subs event "(fst st, logger (LogInfo event) (snd st))"]
      deliver_foldl [of subs event "(fst st, logger (LogInfo event) (snd st))"]
    by (simp add: emit_def prod_eq_iff)
  then show ?thesis
    using deliver_spy [of 0 cbs event s "[]" "logger (LogInfo event) y"]
    by (simp add: emit_def spied_def)
qed

theorem emit_reaches_every_subscriber_witness:
  "emit [raising, counting] (progress_event ''x'' 1 2) (0, ambient0) =
     (None, (11, \<lparr>clock = 2,
                  logged = [LogInfo (progress_event ''x'' 1 2), LogCallbackError (ValueError ''boom'')]\<rparr>))"
  using emit_reaches_every_subscriber [of "[]" "progress_event ''x'' 1 2" "0::nat" ambient0
      "[raising, counting]" "(0, ambient0)"]
  by (simp add: after_callback_def raising_def counting_def ambient0_def tick_def logger_def)

text \<open>
  C8. \<open>cancel_run\<close> fails with 404 (NotFound) for an unknown run id; fails with 400
  (InvalidState) for a finished run, handing the registry back unchanged; and otherwise
  sets the run's status to Canceled, \<open>finished\<close> to true and \<open>error\<close> to
  "Canceled by user", changing nothing else.
\<close>

theorem cancel_run_cases:
  "cancel_run rid runs =
     (case runs rid of
        None \<Rightarrow> (Inl (HTTPException 404 ''Run not found''), runs)
      | Some rs \<Rightarrow>
          if finished rs then (Inl (HTTPException 400 ''Run already finished''), runs)
          else (Inr [(''message'', PStr ''Run canceled''), (''run_id'', PStr rid)],
                runs(rid \<mapsto> rs\<lparr>status := CANCELED, finished := True,
                                  error := Some ''Canceled by user''\<rparr>)))"
  by (simp add: cancel_run_def get_run_status_def not_status_def to_dict_finished
      split: option.split)
     (simp add: to_dict_def)

theorem cancel_run_cases_witness:
  "cancel_run ''r9'' registry1 = (Inl (HTTPException 404 ''Run not found''), registry1) \<and>
   cancel_run ''r1'' (registry1(''r1'' \<mapsto> run1\<lparr>status := SUCCEEDED, finished := True\<rparr>)) =
     (Inl (HTTPException 400 ''Run already finished''),
      registry1(''r1'' \<mapsto> run1\<lparr>status := SUCCEEDED, finished := True\<rparr>)) \<and>
   map_option status (snd (cancel_run ''r1'' registry1) ''r1'') = Some CANCELED"
  using cancel_run_cases [of "''r9''" registry1]
    cancel_run_cases [of "''r1''" "registry1(''r1'' \<mapsto> run1\<lparr>status := SUCCEEDED, finished := True\<rparr>)"]
    cancel_run_cases [of "''r1''" registry1]
  by (simp add: registry1_def run1_def)

text \<open>
  C9. For a run id that is not in the registry, the status route fails with 404
  (NotFound), the events route returns an empty list of events, and both hand the
  registry back unchanged.
\<close>

theorem unknown_run_queries:
  "runs rid = None \<Longrightarrow>
     get_run_status_route rid runs = (Inl (HTTPException 404 ''Run not found''), runs) \<and>
     get_run_events_route rid runs = (Inr [(''run_id'', PStr rid), (''events'', PList [])], runs)"
  by (simp add: get_run_status_route_def get_run_events_route_def get_run_status_def
      get_run_events_def not_status_def)

theorem unknown_run_queries_witness:
  "get_run_status_route ''r9'' registry1 = (Inl (HTTPException 404 ''Run not found''), registry1) \<and>
   get_run_events_route ''r9'' registry1 =
     (Inr [(''run_id'', PStr ''r9''), (''events'', PList [])], registry1)"
  using unknown_run_queries [of registry1 "''r9''"]
  by (simp add: registry1_def)

text \<open>
  C10. A Progress event of a registered run whose agent is none of the three stages is
  appended to the event log and refreshes \<open>updated_at\<close>; every other field of the run,
  \<open>progress\<close>, \<open>processed_docs\<close> and \<open>total_docs\<close> among them, is unchanged.
\<close>

theorem foreign_progress_event_frame:
  assumes "runs (run_id event) = Some run_state"
    and "event_type event = PROGRESS"
    and "agent_id event \<noteq> ''document_processor''"
    and "agent_id event \<noteq> ''content_generator''"
    and "agent_id event \<noteq> ''document_assembler''"
  shows "handle_agent_event event now runs =
           (None, runs(run_id event \<mapsto> run_state\<lparr>events := events run_state @ [event], updated_at := now\<rparr>))"
  using assms by (simp add: handle_agent_event_def update_run_state_def)

theorem foreign_progress_event_frame_witness:
  "handle_agent_event (progress_event ''quality_reviewer'' 9 10) 9 registry1 =
     (None, registry1(''r1'' \<mapsto>
        run1\<lparr>events := [progress_event ''quality_reviewer'' 9 10], updated_at := 9\<rparr>))"
  using foreign_progress_event_frame [of registry1 "progress_event ''quality_reviewer'' 9 10" run1 9]
  by (simp add: registry1_def progress_event_def run1_def)

end
